theory Spec2Isabelle
  imports Complex_Main
begin

section \<open>Errors\<close>

text \<open>
  The Python exceptions that the modelled code can raise, as values. A failing step
  returns \<open>Inl e\<close>; \<open>then_do\<close> sequences two steps and stops at the first failure, as an
  uncaught exception does.
\<close>

datatype error =
    AssertionError
  | IndexError
  | TypeError
  | ValueError
  | ZeroDivisionError
  | RuntimeError
  | ConfigurationError

definition then_do :: "error + 'a \<Rightarrow> ('a \<Rightarrow> error + 'b) \<Rightarrow> error + 'b" where
  "then_do r f = (case r of Inl e \<Rightarrow> Inl e | Inr v \<Rightarrow> f v)"

section \<open>Stitcher configuration and construction\<close>

text \<open>
  The \<open>model\<close> argument of the constructors is any Python object; only an instance of
  \<open>torch.nn.Module\<close> passes the first assertion.
\<close>

datatype 'm pyobj = Module 'm | NotModule

record 'm stitcher =
  model :: 'm
  size_hw :: "int \<times> int"
  overlap :: int
  batch_size :: int
  down_ratio :: int
  up :: bool
  reduction :: string
  device :: string

text \<open>
  \<open>Stitcher.__init__\<close>: two assertions, then the fields are stored and the model is
  moved to the device. \<open>torch.device\<close> and \<open>Module.to\<close> belong to torch; they raise
  RuntimeError for a device the installation does not offer, which is the parameter
  \<open>dev_ok\<close>.
\<close>

definition stitcher_init ::
  "(string \<Rightarrow> bool) \<Rightarrow> 'm pyobj \<Rightarrow> int \<times> int \<Rightarrow> int \<Rightarrow> int \<Rightarrow> int \<Rightarrow> bool \<Rightarrow> string \<Rightarrow> string
     \<Rightarrow> error + 'm stitcher" where
  "stitcher_init dev_ok model_arg sz ov bs dr upf red device_name =
     (case model_arg of
        NotModule \<Rightarrow> Inl AssertionError
      | Module m \<Rightarrow>
          if red \<notin> set [''sum'', ''mean'', ''max''] then Inl AssertionError
          else if \<not> dev_ok device_name then Inl RuntimeError
          else Inr \<lparr> model = m, size_hw = sz, overlap = ov, batch_size = bs,
                     down_ratio = dr, up = upf, reduction = red, device = device_name \<rparr>)"

record 'm frcnn_stitcher = "'m stitcher" +
  nms_threshold :: real
  score_threshold :: real

text \<open>
  \<open>FasterRCNNStitcher.__init__\<close> calls the parent constructor with its defaults
  (\<open>down_ratio = 1\<close>, \<open>up = False\<close>, \<open>reduction = 'sum'\<close>), then stores both thresholds
  and sets \<open>up\<close> to False.
\<close>

definition frcnn_init ::
  "(string \<Rightarrow> bool) \<Rightarrow> 'm pyobj \<Rightarrow> int \<times> int \<Rightarrow> int \<Rightarrow> real \<Rightarrow> real \<Rightarrow> int \<Rightarrow> string
     \<Rightarrow> error + 'm frcnn_stitcher" where
  "frcnn_init dev_ok model_arg sz ov nms_thr score_thr bs device_name =
     then_do (stitcher_init dev_ok model_arg sz ov bs 1 False ''sum'' device_name)
       (\<lambda>st. Inr (stitcher.extend st
                \<lparr> nms_threshold = nms_thr, score_threshold = score_thr \<rparr>
                \<lparr> up := False \<rparr>))"

section \<open>Detections\<close>

text \<open>
  A detection set is the dictionary of three parallel tensors the detector returns for
  one image: boxes \<open>(x1, y1, x2, y2)\<close>, labels and scores. Entries are real numbers: the
  rounding of \<open>torch.Tensor(...)\<close> to 32-bit floats is not modelled.
\<close>

type_synonym box = "real \<times> real \<times> real \<times> real"

record detections =
  boxes :: "box list"
  labels :: "real list"
  scores :: "real list"

text \<open>
  The pixel box of one patch in the image, as \<open>get_limits()\<close> of the patch extractor
  gives it. The extractor is not part of the modelled files, so the sequence of limits is
  a parameter of \<open>frcnn_patch_maps\<close>.
\<close>

record bbox =
  x_min :: int
  y_min :: int
  x_max :: int
  y_max :: int

text \<open>The inner loop of \<open>FasterRCNNStitcher._patch_maps\<close>: \<open>boxes = [*boxes, new_box]\<close>.\<close>

fun translate_boxes :: "bbox \<Rightarrow> box list \<Rightarrow> box list \<Rightarrow> box list" where
  "translate_boxes limit acc [] = acc"
| "translate_boxes limit acc ((x1, y1, x2, y2) # rest) =
     translate_boxes limit
       (acc @ [(x1 + of_int (x_min limit), y1 + of_int (y_min limit),
                x2 + of_int (x_min limit), y2 + of_int (y_min limit))])
       rest"

text \<open>The outer loop over \<open>zip(maps, limits)\<close>, with the three accumulators.\<close>

fun patch_loop :: "detections \<Rightarrow> (detections \<times> bbox) list \<Rightarrow> detections" where
  "patch_loop acc [] = acc"
| "patch_loop acc ((m, limit) # rest) =
     patch_loop
       \<lparr> boxes = translate_boxes limit (boxes acc) (boxes m),
         labels = labels acc @ labels m,
         scores = scores acc @ scores m \<rparr>
       rest"

definition frcnn_patch_maps :: "detections list \<Rightarrow> bbox list \<Rightarrow> detections" where
  "frcnn_patch_maps maps limits =
     patch_loop \<lparr> boxes = [], labels = [], scores = [] \<rparr> (zip maps limits)"

subsection \<open>Non-maximum suppression\<close>

text \<open>
  \<open>torchvision.ops.nms\<close> is a library function; this is its documented greedy
  algorithm. The overlap test is the library's \<open>inter / (area_a + area_b - inter) > thr\<close>.
  Where the divisor is zero the float quotient is infinite for a positive intersection
  (the test holds) and not a number otherwise (the test fails); HOL's \<open>x / 0 = 0\<close> would
  say something else, so that case is written out.
\<close>

definition area :: "box \<Rightarrow> real" where
  "area b = (case b of (x1, y1, x2, y2) \<Rightarrow> (x2 - x1) * (y2 - y1))"

definition iou_exceeds :: "real \<Rightarrow> box \<Rightarrow> box \<Rightarrow> bool" where
  "iou_exceeds thr a b =
     (case a of (ax1, ay1, ax2, ay2) \<Rightarrow>
      case b of (bx1, by1, bx2, by2) \<Rightarrow>
        let w = max 0 (min ax2 bx2 - max ax1 bx1);
            h = max 0 (min ay2 by2 - max ay1 by1);
            inter = w * h;
            denom = area a + area b - inter
        in if denom = 0 then 0 < inter else thr < inter / denom)"

text \<open>
  The candidates are visited by decreasing score; each kept candidate removes the later
  ones that overlap it too much.
\<close>

fun nms_keep :: "real \<Rightarrow> box list \<Rightarrow> nat list \<Rightarrow> nat list" where
  "nms_keep thr bs [] = []"
| "nms_keep thr bs (i # rest) =
     i # nms_keep thr bs (filter (\<lambda>j. \<not> iou_exceeds thr (bs ! i) (bs ! j)) rest)"

definition nms :: "box list \<Rightarrow> real list \<Rightarrow> real \<Rightarrow> error + nat list" where
  "nms bs ss thr =
     (if length bs \<noteq> length ss then Inl RuntimeError
      else Inr (nms_keep thr bs (sort_key (\<lambda>i. - (ss ! i)) [0..<length ss])))"

text \<open>Indexing a tensor with a tensor of indices, \<open>t[indices]\<close>.\<close>

definition take_at :: "'a list \<Rightarrow> nat list \<Rightarrow> error + 'a list" where
  "take_at xs idx =
     (if \<forall>i \<in> set idx. i < length xs then Inr (map (\<lambda>i. xs ! i) idx) else Inl IndexError)"

text \<open>
  \<open>torch.nonzero(scores > threshold, as_tuple=True)[0]\<close>: the positions, ascending, of
  the scores strictly above the threshold.
\<close>

definition above_threshold :: "real \<Rightarrow> real list \<Rightarrow> nat list" where
  "above_threshold thr ss = filter (\<lambda>i. thr < ss ! i) [0..<length ss]"

definition select_all :: "detections \<Rightarrow> nat list \<Rightarrow> error + detections" where
  "select_all m idx =
     then_do (take_at (boxes m) idx) (\<lambda>b.
     then_do (take_at (labels m) idx) (\<lambda>l.
     then_do (take_at (scores m) idx) (\<lambda>s.
       Inr \<lparr> boxes = b, labels = l, scores = s \<rparr>)))"

text \<open>\<open>FasterRCNNStitcher._reduce\<close>.\<close>

definition frcnn_reduce :: "'m frcnn_stitcher \<Rightarrow> detections \<Rightarrow> error + detections" where
  "frcnn_reduce st m =
     (if boxes m = [] then Inr m
      else
        then_do (nms (boxes m) (scores m) (nms_threshold st)) (\<lambda>indices.
        then_do (select_all m indices) (\<lambda>reduced.
          select_all reduced (above_threshold (score_threshold st) (scores reduced)))))"

section \<open>Tensors\<close>

text \<open>
  A tensor is its shape and its entries. The images are three-dimensional, \<open>[C, H, W]\<close>;
  the batches of patches, the outputs of the model and the stitched maps are
  four-dimensional, \<open>[N, C, H, W]\<close>. Entries are real numbers: rounding, infinities and
  not-a-number values of the floats are not modelled. Entries at positions outside the
  shape are never read by the modelled code.
\<close>

record tensor3 =
  img_c :: nat
  img_h :: nat
  img_w :: nat
  img_px :: "nat \<Rightarrow> nat \<Rightarrow> nat \<Rightarrow> real"

record tensor4 =
  dim_n :: nat
  dim_c :: nat
  dim_h :: nat
  dim_w :: nat
  entry :: "nat \<Rightarrow> nat \<Rightarrow> nat \<Rightarrow> nat \<Rightarrow> real"

text \<open>\<open>torch.zeros\<close> and \<open>torch.ones\<close>: a tensor filled with one value.\<close>

definition full3 :: "nat \<Rightarrow> nat \<Rightarrow> nat \<Rightarrow> real \<Rightarrow> tensor3" where
  "full3 c h w v = \<lparr> img_c = c, img_h = h, img_w = w, img_px = (\<lambda>_ _ _. v) \<rparr>"

definition full4 :: "nat \<Rightarrow> nat \<Rightarrow> nat \<Rightarrow> nat \<Rightarrow> real \<Rightarrow> tensor4" where
  "full4 n c h w v = \<lparr> dim_n = n, dim_c = c, dim_h = h, dim_w = w, entry = (\<lambda>_ _ _ _. v) \<rparr>"

text \<open>Iterating over a four-dimensional tensor yields its items along the first axis.\<close>

definition unbind :: "tensor4 \<Rightarrow> tensor3 list" where
  "unbind t =
     map (\<lambda>n. \<lparr> img_c = dim_c t, img_h = dim_h t, img_w = dim_w t, img_px = entry t n \<rparr>)
       [0..<dim_n t]"

text \<open>
  \<open>torch.cat(maps, dim=0)\<close>: the list must not be empty and the tensors must agree in
  every axis but the first.
\<close>

fun cat_entry :: "tensor4 list \<Rightarrow> nat \<Rightarrow> nat \<Rightarrow> nat \<Rightarrow> nat \<Rightarrow> real" where
  "cat_entry [] n c y x = 0"
| "cat_entry (t # ts) n c y x =
     (if n < dim_n t then entry t n c y x else cat_entry ts (n - dim_n t) c y x)"

definition cat :: "tensor4 list \<Rightarrow> error + tensor4" where
  "cat ts =
     (case ts of
        [] \<Rightarrow> Inl RuntimeError
      | t # rest \<Rightarrow>
          if \<forall>u \<in> set rest. dim_c u = dim_c t \<and> dim_h u = dim_h t \<and> dim_w u = dim_w t
          then Inr \<lparr> dim_n = sum_list (map dim_n ts), dim_c = dim_c t, dim_h = dim_h t,
                     dim_w = dim_w t, entry = cat_entry ts \<rparr>
          else Inl RuntimeError)"

text \<open>
  A slice bound on an axis of \<open>n\<close> positions: a negative bound counts from the end, and
  every bound is clamped to the axis.
\<close>

definition norm_index :: "nat \<Rightarrow> int \<Rightarrow> nat" where
  "norm_index n i = (if i < 0 then nat (max 0 (int n + i)) else min n (nat i))"

text \<open>\<open>range(0, stop, step)\<close>, which raises ValueError for a zero step.\<close>

definition range0 :: "int \<Rightarrow> int \<Rightarrow> error + int list" where
  "range0 stop step =
     (if step = 0 then Inl ValueError
      else if 0 < step then Inr (map (\<lambda>i. int i * step) [0..<nat ((stop + step - 1) div step)])
      else Inr (map (\<lambda>i. int i * step) [0..<nat ((stop + step + 1) div step)]))"

text \<open>
  Elementwise division with broadcasting, \<open>torch.div\<close>. Two axes are compatible if they
  are equal or one of them is 1. Where the divisor is zero torch gives an infinity or
  not-a-number and this model gives 0; no statement below reads such an entry.
\<close>

definition bdim :: "nat \<Rightarrow> nat \<Rightarrow> nat option" where
  "bdim p q = (if p = q then Some p else if p = 1 then Some q else if q = 1 then Some p else None)"

definition bidx :: "nat \<Rightarrow> nat \<Rightarrow> nat" where
  "bidx d i = (if d = 1 then 0 else i)"

definition tdiv :: "tensor4 \<Rightarrow> tensor4 \<Rightarrow> error + tensor4" where
  "tdiv a b =
     (case (bdim (dim_n a) (dim_n b), bdim (dim_c a) (dim_c b),
            bdim (dim_h a) (dim_h b), bdim (dim_w a) (dim_w b)) of
        (Some n, Some c, Some h, Some w) \<Rightarrow>
          Inr \<lparr> dim_n = n, dim_c = c, dim_h = h, dim_w = w,
                entry = (\<lambda>i j y x.
                  entry a (bidx (dim_n a) i) (bidx (dim_c a) j) (bidx (dim_h a) y) (bidx (dim_w a) x)
                  / entry b (bidx (dim_n b) i) (bidx (dim_c b) j) (bidx (dim_h b) y) (bidx (dim_w b) x)) \<rparr>
      | _ \<Rightarrow> Inl RuntimeError)"

section \<open>The patch extractor\<close>

text \<open>
  \<open>ImageToPatches\<close> is imported from another module of the package and is not among the
  modelled files. Its constructor followed by \<open>make_patches()\<close> is a parameter of the
  model: a function from the image, the patch size and the overlap to the grid counts
  \<open>_nrow\<close>, \<open>_ncol\<close> and the batch of patches, or to an error.
\<close>

record tiling =
  t_nrow :: int
  t_ncol :: int
  t_patches :: tensor4

type_synonym extractor = "tensor3 \<Rightarrow> int \<times> int \<Rightarrow> int \<Rightarrow> error + tiling"

section \<open>Inference\<close>

text \<open>
  \<open>DataLoader\<close> with a \<open>SequentialSampler\<close>: consecutive batches of \<open>batch_size\<close> items,
  the last one shorter if need be; a batch size that is not positive is refused.
\<close>

definition sub_batch :: "tensor4 \<Rightarrow> nat \<Rightarrow> nat \<Rightarrow> tensor4" where
  "sub_batch t start len = t \<lparr> dim_n := len, entry := (\<lambda>n. entry t (start + n)) \<rparr>"

definition dataloader :: "int \<Rightarrow> tensor4 \<Rightarrow> error + tensor4 list" where
  "dataloader bs t =
     (if bs \<le> 0 then Inl ValueError
      else Inr (map (\<lambda>k. sub_batch t (k * nat bs) (min (nat bs) (dim_n t - k * nat bs)))
                  [0..<(dim_n t + nat bs - 1) div nat bs]))"

text \<open>
  \<open>Stitcher._inference\<close>: the model is called on each batch and may raise; the output of
  a batch is added to the list as one tensor (\<open>[*maps, *outputs.unsqueeze(0)]\<close>).
\<close>

fun inference_loop ::
  "(tensor4 \<Rightarrow> error + tensor4) \<Rightarrow> tensor4 list \<Rightarrow> tensor4 list \<Rightarrow> error + tensor4 list" where
  "inference_loop mdl maps [] = Inr maps"
| "inference_loop mdl maps (patch # rest) =
     then_do (mdl patch) (\<lambda>outputs. inference_loop mdl (maps @ [outputs]) rest)"

definition inference ::
  "((tensor4 \<Rightarrow> error + tensor4), 'z) stitcher_scheme \<Rightarrow> tensor4 \<Rightarrow> error + tensor4 list" where
  "inference st patches =
     then_do (dataloader (batch_size st) patches) (inference_loop (model st) [])"

text \<open>
  \<open>FasterRCNNStitcher._inference\<close>: the model returns a list of detection sets, and
  \<open>maps.append(*outputs)\<close> passes each of them as an argument of its own; \<open>append\<close>
  takes exactly one.
\<close>

fun frcnn_inference_loop ::
  "(tensor4 \<Rightarrow> error + detections list) \<Rightarrow> detections list \<Rightarrow> tensor4 list
     \<Rightarrow> error + detections list" where
  "frcnn_inference_loop mdl maps [] = Inr maps"
| "frcnn_inference_loop mdl maps (patch # rest) =
     then_do (mdl patch) (\<lambda>outputs.
       case outputs of
         [out] \<Rightarrow> frcnn_inference_loop mdl (maps @ [out]) rest
       | _ \<Rightarrow> Inl TypeError)"

definition frcnn_inference ::
  "((tensor4 \<Rightarrow> error + detections list), 'z) stitcher_scheme \<Rightarrow> tensor4
     \<Rightarrow> error + detections list" where
  "frcnn_inference st patches =
     then_do (dataloader (batch_size st) patches) (frcnn_inference_loop (model st) [])"

section \<open>Assembling dense maps\<close>

subsection \<open>Overlap-add\<close>

text \<open>
  \<open>F.fold\<close> of torch, from its documentation and shape checks. The input has one column
  per block and \<open>C * kh * kw\<close> rows; the blocks are laid on the output in row-major order
  at multiples of the stride and added up. \<open>view_rows\<close> is the input that
  \<open>maps.permute(1,2,3,0).contiguous().view(1, -1, n_patches)\<close> builds: row \<open>k\<close> of column
  \<open>l\<close> is the \<open>k\<close>-th entry of patch \<open>l\<close> in row-major order.
\<close>

definition view_rows :: "tensor4 \<Rightarrow> nat \<Rightarrow> nat \<Rightarrow> real" where
  "view_rows maps k l =
     entry maps l (k div (dim_h maps * dim_w maps)) ((k div dim_w maps) mod dim_h maps)
       (k mod dim_w maps)"

definition fold_blocks :: "int \<Rightarrow> int \<Rightarrow> int \<Rightarrow> int" where
  "fold_blocks out k s = (out - (k - 1) - 1) div s + 1"

definition fold_entry ::
  "tensor4 \<Rightarrow> int \<times> int \<Rightarrow> int \<times> int \<Rightarrow> int \<times> int \<Rightarrow> nat \<Rightarrow> nat \<Rightarrow> nat \<Rightarrow> real" where
  "fold_entry maps output_size kernel_size stride c y x =
     (let kh = fst kernel_size; kw = snd kernel_size;
          sh = fst stride; sw = snd stride;
          nbh = fold_blocks (fst output_size) kh sh;
          nbw = fold_blocks (snd output_size) kw sw
      in \<Sum>by \<leftarrow> [0..<nat nbh]. \<Sum>bx \<leftarrow> [0..<nat nbw].
           (let dy = int y - int by * sh; dx = int x - int bx * sw
            in if 0 \<le> dy \<and> dy < kh \<and> 0 \<le> dx \<and> dx < kw
               then view_rows maps (nat (int c * kh * kw + dy * kw + dx)) (by * nat nbw + bx)
               else 0))"

definition fold ::
  "tensor4 \<Rightarrow> int \<times> int \<Rightarrow> int \<times> int \<Rightarrow> int \<times> int \<Rightarrow> error + tensor4" where
  "fold maps output_size kernel_size stride =
     (let kh = fst kernel_size; kw = snd kernel_size;
          sh = fst stride; sw = snd stride;
          rows = dim_c maps * dim_h maps * dim_w maps;
          nbh = fold_blocks (fst output_size) kh sh;
          nbw = fold_blocks (snd output_size) kw sw
      in if kh \<le> 0 \<or> kw \<le> 0 \<or> sh \<le> 0 \<or> sw \<le> 0 then Inl RuntimeError
         else if rows = 0 \<or> dim_n maps = 0 then Inl RuntimeError
         else if int rows mod (kh * kw) \<noteq> 0 then Inl RuntimeError
         else if nbh < 1 \<or> nbw < 1 \<or> int (dim_n maps) \<noteq> nbh * nbw then Inl RuntimeError
         else Inr \<lparr> dim_n = 1, dim_c = rows div nat (kh * kw),
                    dim_h = nat (fst output_size), dim_w = nat (snd output_size),
                    entry = (\<lambda>n. fold_entry maps output_size kernel_size stride) \<rparr>)"

subsection \<open>Maximum\<close>

text \<open>
  \<open>Stitcher._max_fold\<close>. The lambda \<open>fn\<close> lists the boxes along one axis and drops the last
  one (\<open>[:-1]\<close>); the comprehension evaluates \<open>fn(1)\<close> once for each element of \<open>fn(0)\<close>,
  so not at all when \<open>fn(0)\<close> is empty.
\<close>

type_synonym loc = "int \<times> int \<times> int \<times> int"

definition fn :: "int \<Rightarrow> int \<Rightarrow> int \<Rightarrow> error + (int \<times> int) list" where
  "fn out k s = then_do (range0 out s) (\<lambda>starts. Inr (butlast (map (\<lambda>i. (i, i + k)) starts)))"

definition max_fold_locs :: "int \<times> int \<Rightarrow> int \<times> int \<Rightarrow> int \<times> int \<Rightarrow> error + loc list" where
  "max_fold_locs output_size kernel_size stride =
     then_do (fn (fst output_size) (fst kernel_size) (fst stride)) (\<lambda>hs.
       if hs = [] then Inr []
       else then_do (fn (snd output_size) (snd kernel_size) (snd stride)) (\<lambda>ws.
         Inr (concat (map (\<lambda>(h0, h1). map (\<lambda>(w0, w1). (h0, h1, w0, w1)) ws) hs))))"

text \<open>
  \<open>patch[:, :, loc[0]:loc[1], loc[2]:loc[3]] = m\<close>: the slice is clamped to the tensor, and
  \<open>m\<close> must have the shape of the slice or broadcast to it.
\<close>

definition set_patch :: "tensor4 \<Rightarrow> loc \<Rightarrow> tensor3 \<Rightarrow> error + tensor4" where
  "set_patch patch l m =
     (case l of (l0, l1, l2, l3) \<Rightarrow>
        let h0 = norm_index (dim_h patch) l0; h1 = norm_index (dim_h patch) l1;
            w0 = norm_index (dim_w patch) l2; w1 = norm_index (dim_w patch) l3
        in if (img_c m = dim_c patch \<or> img_c m = 1) \<and>
              (img_h m = h1 - h0 \<or> img_h m = 1) \<and>
              (img_w m = w1 - w0 \<or> img_w m = 1)
           then Inr (patch \<lparr> entry := (\<lambda>n c y x.
                  if h0 \<le> y \<and> y < h1 \<and> w0 \<le> x \<and> x < w1
                  then img_px m (bidx (img_c m) c) (bidx (img_h m) (y - h0)) (bidx (img_w m) (x - w0))
                  else entry patch n c y x) \<rparr>)
           else Inl RuntimeError)"

definition tmax :: "tensor4 \<Rightarrow> tensor4 \<Rightarrow> tensor4" where
  "tmax a b = a \<lparr> entry := (\<lambda>n c y x. max (entry a n c y x) (entry b n c y x)) \<rparr>"

fun max_fold_loop :: "tensor4 \<Rightarrow> (loc \<times> tensor3) list \<Rightarrow> error + tensor4" where
  "max_fold_loop output [] = Inr output"
| "max_fold_loop output ((l, m) # rest) =
     then_do (set_patch (full4 (dim_n output) (dim_c output) (dim_h output) (dim_w output) 0) l m)
       (\<lambda>patch. max_fold_loop (tmax output patch) rest)"

definition max_fold ::
  "tensor4 \<Rightarrow> int \<times> int \<Rightarrow> int \<times> int \<Rightarrow> int \<times> int \<Rightarrow> error + tensor4" where
  "max_fold maps output_size kernel_size stride =
     (if fst output_size < 0 \<or> snd output_size < 0 then Inl RuntimeError
      else
        then_do (max_fold_locs output_size kernel_size stride) (\<lambda>locs.
          max_fold_loop
            (full4 1 (dim_c maps) (nat (fst output_size)) (nat (snd output_size)) 0)
            (zip locs (unbind maps))))"

subsection \<open>The stitcher during a call\<close>

text \<open>
  \<open>__call__\<close> runs the constructor of the extractor on the stitcher itself, which sets
  \<open>_nrow\<close> and \<open>_ncol\<close>, and stores the image.
\<close>

record 'm stitching = "'m stitcher" +
  img :: tensor3
  nrow :: int
  ncol :: int

text \<open>The crop \<open>out_map[:, :, 0:dh, 0:dw]\<close>.\<close>

definition crop :: "tensor4 \<Rightarrow> int \<Rightarrow> int \<Rightarrow> tensor4" where
  "crop t dh dw = t \<lparr> dim_h := norm_index (dim_h t) dh, dim_w := norm_index (dim_w t) dw \<rparr>"

text \<open>
  \<open>Stitcher._patch_maps\<close>. The floor divisions of Python are \<open>div\<close> on \<open>int\<close>; the first
  of them raises for a zero \<open>down_ratio\<close>. The height of the output is computed from
  \<open>_ncol\<close> and the width from \<open>_nrow\<close>, as in the source.
\<close>

definition patch_maps :: "('m, 'z) stitching_scheme \<Rightarrow> tensor4 list \<Rightarrow> error + tensor4" where
  "patch_maps st maps =
     (if down_ratio st = 0 then Inl ZeroDivisionError
      else
        let dh = int (img_h (img st)) div down_ratio st;
            dw = int (img_w (img st)) div down_ratio st;
            kernel_size = (fst (size_hw st) div down_ratio st, snd (size_hw st) div down_ratio st);
            stride = (fst kernel_size - overlap st div down_ratio st,
                      snd kernel_size - overlap st div down_ratio st);
            output_size =
              (ncol st * fst kernel_size - ((ncol st - 1) * overlap st) div down_ratio st,
               nrow st * snd kernel_size - ((nrow st - 1) * overlap st) div down_ratio st)
        in then_do (cat maps) (\<lambda>maps.
           then_do (if reduction st = ''max''
                    then max_fold maps output_size kernel_size stride
                    else fold maps output_size kernel_size stride) (\<lambda>out_map.
             Inr (crop out_map dh dw))))"

text \<open>
  \<open>Stitcher._reduce\<close>. \<open>ones_patches[:, 1, :, :]\<close> and \<open>ones[1, :, :]\<close> read channel 1 and
  raise IndexError when there is none. The plane \<open>ones[1, :, :]\<close> of shape \<open>[dh, dw]\<close>
  broadcasts as \<open>[1, 1, dh, dw]\<close>.
\<close>

definition channel_one :: "tensor4 \<Rightarrow> error + tensor4 list" where
  "channel_one t =
     (if dim_c t \<le> 1 then Inl IndexError
      else Inr (map (\<lambda>n. \<lparr> dim_n = 1, dim_c = 1, dim_h = dim_h t, dim_w = dim_w t,
                           entry = (\<lambda>_ _. entry t n 1) \<rparr>) [0..<dim_n t]))"

definition reduce ::
  "extractor \<Rightarrow> ('m, 'z) stitching_scheme \<Rightarrow> tensor4 \<Rightarrow> error + tensor4" where
  "reduce extract st mp =
     (if down_ratio st = 0 then Inl ZeroDivisionError
      else
        let dh = int (img_h (img st)) div down_ratio st;
            dw = int (img_w (img st)) div down_ratio st
        in if dh < 0 \<or> dw < 0 then Inl RuntimeError
           else
             let ones = full3 (img_c (img st)) (nat dh) (nat dw) 1
             in then_do
                  (if reduction st = ''mean''
                   then
                     then_do (extract ones
                                (fst (size_hw st) div down_ratio st, snd (size_hw st) div down_ratio st)
                                (overlap st div down_ratio st)) (\<lambda>tl.
                     then_do (channel_one (t_patches tl)) (\<lambda>ones_patches.
                       patch_maps st ones_patches))
                   else
                     if img_c ones \<le> 1 then Inl IndexError
                     else Inr \<lparr> dim_n = 1, dim_c = 1, dim_h = img_h ones, dim_w = img_w ones,
                                entry = (\<lambda>_ _. img_px ones 1) \<rparr>)
                  (\<lambda>norm_map. tdiv mp norm_map))"

text \<open>
  \<open>Stitcher.__call__\<close>. \<open>F.interpolate\<close> belongs to torch and is the parameter \<open>interpolate\<close>.
\<close>

definition stitch_call ::
  "extractor \<Rightarrow> (tensor4 \<Rightarrow> int \<Rightarrow> error + tensor4)
     \<Rightarrow> (tensor4 \<Rightarrow> error + tensor4) stitcher \<Rightarrow> tensor3 \<Rightarrow> error + tensor4" where
  "stitch_call extract interpolate st image' =
     then_do (extract image' (size_hw st) (overlap st)) (\<lambda>tl.
       let self = stitcher.extend st \<lparr> img = image', nrow = t_nrow tl, ncol = t_ncol tl \<rparr>
       in then_do (inference self (t_patches tl)) (\<lambda>det_maps.
          then_do (patch_maps self det_maps) (\<lambda>patched_map.
          then_do (reduce extract self patched_map) (\<lambda>patched_map.
            if up st then interpolate patched_map (down_ratio st) else Inr patched_map))))"

text \<open>
  The detection stitcher inherits \<open>__call__\<close>; its \<open>up\<close> is False. The limits of the
  patches, \<open>get_limits().values()\<close> of the extractor, are the parameter \<open>limits\<close>.
\<close>

definition frcnn_call ::
  "extractor \<Rightarrow> (tensor3 \<Rightarrow> int \<times> int \<Rightarrow> int \<Rightarrow> bbox list)
     \<Rightarrow> (tensor4 \<Rightarrow> error + detections list) frcnn_stitcher \<Rightarrow> tensor3 \<Rightarrow> error + detections" where
  "frcnn_call extract limits st image' =
     then_do (extract image' (size_hw st) (overlap st)) (\<lambda>tl.
     then_do (frcnn_inference st (t_patches tl)) (\<lambda>det_maps.
       frcnn_reduce st (frcnn_patch_maps det_maps (limits image' (size_hw st) (overlap st)))))"


section \<open>Notions used to state the properties\<close>

text \<open>The detections of a set as tuples (box, label, score).\<close>

definition dets :: "detections \<Rightarrow> (box \<times> real \<times> real) list" where
  "dets m = zip (boxes m) (zip (labels m) (scores m))"

text \<open>The translation that the inner loop applies to one box.\<close>

definition shift_box :: "bbox \<Rightarrow> box \<Rightarrow> box" where
  "shift_box l b = (case b of (x1, y1, x2, y2) \<Rightarrow>
     (x1 + of_int (x_min l), y1 + of_int (y_min l), x2 + of_int (x_min l), y2 + of_int (y_min l)))"

text \<open>
  A box of the image lies inside the pixel box of a patch; a box in patch coordinates
  lies within the extent of its patch.
\<close>

definition inside :: "bbox \<Rightarrow> box \<Rightarrow> bool" where
  "inside l b =
     (case b of (x1, y1, x2, y2) \<Rightarrow>
        of_int (x_min l) \<le> x1 \<and> x1 \<le> of_int (x_max l) \<and>
        of_int (x_min l) \<le> x2 \<and> x2 \<le> of_int (x_max l) \<and>
        of_int (y_min l) \<le> y1 \<and> y1 \<le> of_int (y_max l) \<and>
        of_int (y_min l) \<le> y2 \<and> y2 \<le> of_int (y_max l))"

definition within_patch :: "bbox \<Rightarrow> box \<Rightarrow> bool" where
  "within_patch l b =
     (case b of (x1, y1, x2, y2) \<Rightarrow>
        0 \<le> x1 \<and> x1 \<le> of_int (x_max l - x_min l) \<and>
        0 \<le> x2 \<and> x2 \<le> of_int (x_max l - x_min l) \<and>
        0 \<le> y1 \<and> y1 \<le> of_int (y_max l - y_min l) \<and>
        0 \<le> y2 \<and> y2 \<le> of_int (y_max l - y_min l))"

text \<open>An installation that offers the device \<open>cpu\<close> only.\<close>

definition cpu_only :: "string \<Rightarrow> bool" where
  "cpu_only name = (name = ''cpu'')"

text \<open>
  The value that the patch laid at one box gives one pixel of its zero-filled buffer.
\<close>

definition patch_val :: "nat \<Rightarrow> nat \<Rightarrow> loc \<Rightarrow> tensor3 \<Rightarrow> nat \<Rightarrow> nat \<Rightarrow> nat \<Rightarrow> real" where
  "patch_val H W l m c y x =
     (case l of (l0, l1, l2, l3) \<Rightarrow>
        if norm_index H l0 \<le> y \<and> y < norm_index H l1 \<and> norm_index W l2 \<le> x \<and> x < norm_index W l3
        then img_px m (bidx (img_c m) c) (bidx (img_h m) (y - norm_index H l0))
               (bidx (img_w m) (x - norm_index W l2))
        else 0)"

text \<open>
  The tiling grid in the coordinates of the assembled map: \<open>m\<close> patches per row,
  enumerated row by row, strides \<open>sh\<close> and \<open>sw\<close>, patches of \<open>sh + ov\<close> rows and
  \<open>sw + ov\<close> columns. \<open>tile_covers\<close> says that the box of patch \<open>i\<close> covers the pixel
  \<open>(y, x)\<close>; \<open>tile_value\<close> is the value patch \<open>i\<close> has for that pixel.
\<close>

definition tile_covers :: "nat \<Rightarrow> nat \<Rightarrow> nat \<Rightarrow> nat \<Rightarrow> nat \<Rightarrow> nat \<Rightarrow> nat \<Rightarrow> bool" where
  "tile_covers m sh sw ov i y x =
     ((i div m) * sh \<le> y \<and> y < (i div m) * sh + (sh + ov) \<and>
      (i mod m) * sw \<le> x \<and> x < (i mod m) * sw + (sw + ov))"

definition tile_value :: "tensor4 \<Rightarrow> nat \<Rightarrow> nat \<Rightarrow> nat \<Rightarrow> nat \<Rightarrow> nat \<Rightarrow> nat \<Rightarrow> nat \<Rightarrow> real" where
  "tile_value maps m sh sw i c y x = entry maps i c (y - (i div m) * sh) (x - (i mod m) * sw)"

text \<open>The rows of one channel of one item, for reading a result.\<close>

definition plane :: "tensor4 \<Rightarrow> nat \<Rightarrow> nat \<Rightarrow> real list list" where
  "plane t n c = map (\<lambda>y. map (\<lambda>x. entry t n c y x) [0..<dim_w t]) [0..<dim_h t]"

section \<open>The patch extractor of the specification\<close>

text \<open>
  Modelled from the spec: the number of patches along one axis of the tiling plan, which
  \<open>ImageToPatches\<close> (not among the modelled files) computes. It is the smallest count
  such that patches of length \<open>p\<close> laid at multiples of the stride \<open>s\<close> cover
  \<open>[0, len)\<close>.
\<close>

definition grid_count :: "int \<Rightarrow> int \<Rightarrow> int \<Rightarrow> int" where
  "grid_count len p s = (if len \<le> 0 then 0 else if len \<le> p then 1 else (len - p + s - 1) div s + 1)"

text \<open>
  Modelled from the spec: the tiling plan and the patches of \<open>ImageToPatches\<close>, which is
  not among the modelled files. The stride is the patch size minus the overlap and must be
  positive, else ConfigurationError; rows cover the height and columns the width; the
  patches are enumerated row by row and have the channels of the image and the patch
  size. The specification leaves the entries beyond the border of the image to the
  extractor; they are 0 here.
\<close>

definition spec_extract :: extractor where
  "spec_extract image' sz ov =
     (let ph = fst sz; pw = snd sz; sh = ph - ov; sw = pw - ov
      in if sh \<le> 0 \<or> sw \<le> 0 then Inl ConfigurationError
         else
           let nr = grid_count (int (img_h image')) ph sh;
               nc = grid_count (int (img_w image')) pw sw
           in Inr \<lparr> t_nrow = nr, t_ncol = nc,
                     t_patches =
                       \<lparr> dim_n = nat (nr * nc), dim_c = img_c image', dim_h = nat ph, dim_w = nat pw,
                         entry = (\<lambda>l c y x.
                           let yy = (l div nat nc) * nat sh + y; xx = (l mod nat nc) * nat sw + x
                           in if yy < img_h image' \<and> xx < img_w image' then img_px image' c yy xx
                              else 0) \<rparr> \<rparr>)"

text \<open>
  Modelled from the spec: a patch has the shape \<open>(C, patch_h, patch_w)\<close>, with the \<open>C\<close> of
  the image it is cut from. \<open>keeps_channels\<close> says so of one call of an extractor.
\<close>

definition keeps_channels :: "extractor \<Rightarrow> tensor3 \<Rightarrow> int \<times> int \<Rightarrow> int \<Rightarrow> bool" where
  "keeps_channels extract image' sz ov =
     (case extract image' sz ov of
        Inl e \<Rightarrow> True
      | Inr tiles \<Rightarrow> dim_c (t_patches tiles) = img_c image')"

section \<open>Example inputs\<close>

text \<open>
  A model that returns an all-ones map for every patch, one that returns the patches
  themselves, and a detector that finds nothing in any patch.
\<close>

definition ones_model :: "tensor4 \<Rightarrow> error + tensor4" where
  "ones_model batch = Inr (full4 (dim_n batch) 1 (dim_h batch) (dim_w batch) 1)"

definition identity_model :: "tensor4 \<Rightarrow> error + tensor4" where
  "identity_model batch = Inr batch"

definition no_detections :: "tensor4 \<Rightarrow> error + detections list" where
  "no_detections batch =
     Inr (map (\<lambda>n. \<lparr> boxes = [], labels = [], scores = [] \<rparr>) [0..<dim_n batch])"

text \<open>A three-channel image of four rows and columns, every channel counting 1 to 16.\<close>

definition ramp :: tensor3 where
  "ramp = \<lparr> img_c = 3, img_h = 4, img_w = 4, img_px = (\<lambda>c y x. 1 + 4 * real y + real x) \<rparr>"

text \<open>The outputs of two patches of two rows and columns, constant \<open>v1\<close> and \<open>v2\<close>.\<close>

definition two_patches :: "real \<Rightarrow> real \<Rightarrow> tensor4" where
  "two_patches v1 v2 =
     \<lparr> dim_n = 2, dim_c = 1, dim_h = 2, dim_w = 2,
       entry = (\<lambda>n c y x. if n = 0 then v1 else v2) \<rparr>"

text \<open>The outputs of two patches of \<open>k\<close> rows and columns, constant \<open>v1\<close> and \<open>v2\<close>.\<close>

definition two_patches_of :: "nat \<Rightarrow> real \<Rightarrow> real \<Rightarrow> tensor4" where
  "two_patches_of k v1 v2 =
     \<lparr> dim_n = 2, dim_c = 1, dim_h = k, dim_w = k,
       entry = (\<lambda>n c y x. if n = 0 then v1 else v2) \<rparr>"


section \<open>Sequencing\<close>

lemma then_do_Inr [simp]: "then_do (Inr v) f = f v"
  by (simp add: then_do_def)

lemma then_do_Inl [simp]: "then_do (Inl e) f = Inl e"
  by (simp add: then_do_def)

section \<open>Construction\<close>

text \<open>
  C4 (amended). The constructor raises its assertion error exactly when the model is not
  a module or the reduction mode is not one of \<open>sum\<close>, \<open>mean\<close>, \<open>max\<close>; the detection
  stitcher, whose reduction mode is fixed, exactly when the model is not a module. The
  patch size and the overlap are stored as given: with a module, a listed mode and a
  device that exists, construction succeeds whatever the overlap is.
\<close>

theorem stitcher_init_assertions:
  "(stitcher_init dev_ok model_arg sz ov bs dr upf red dev = Inl AssertionError)
     = (model_arg = NotModule \<or> red \<notin> {''sum'', ''mean'', ''max''})
   \<and> (frcnn_init dev_ok model_arg sz ov nt sct bs dev = Inl AssertionError) = (model_arg = NotModule)
   \<and> (case model_arg of
         NotModule \<Rightarrow> True
       | Module m \<Rightarrow>
           red \<in> {''sum'', ''mean'', ''max''} \<and> dev_ok dev \<longrightarrow>
             stitcher_init dev_ok model_arg sz ov bs dr upf red dev =
               Inr \<lparr> model = m, size_hw = sz, overlap = ov, batch_size = bs,
                     down_ratio = dr, up = upf, reduction = red, device = dev \<rparr>)"
  by (cases model_arg) (auto simp: stitcher_init_def frcnn_init_def split: if_splits)

theorem stitcher_init_assertions_witness:
  "''mean'' \<in> {''sum'', ''mean'', ''max''} \<and> cpu_only ''cpu'' \<and>
   stitcher_init cpu_only (Module ()) (256, 256) 300 1 1 False ''mean'' ''cpu'' =
     Inr \<lparr> model = (), size_hw = (256, 256), overlap = 300, batch_size = 1,
           down_ratio = 1, up = False, reduction = ''mean'', device = ''cpu'' \<rparr>"
  using stitcher_init_assertions
    [of cpu_only "Module ()" "(256, 256)" 300 1 1 False "''mean''" "''cpu''" 0 0]
  by (simp add: cpu_only_def)

text \<open>
  C4 as stated fails: an overlap of 300 with patches of 256 gives a stride that is not
  positive, and the constructor returns the stitcher.
\<close>

theorem stitcher_init_stride_counterexample:
  "fst (256 :: int, 256 :: int) - 300 \<le> 0 \<and>
   stitcher_init cpu_only (Module ()) (256, 256) 300 1 1 False ''sum'' ''cpu'' =
     Inr \<lparr> model = (), size_hw = (256, 256), overlap = 300, batch_size = 1,
           down_ratio = 1, up = False, reduction = ''sum'', device = ''cpu'' \<rparr>"
  by (simp add: stitcher_init_def cpu_only_def)

section \<open>Translation of the boxes\<close>

lemma translate_boxes_map: "translate_boxes l acc bs = acc @ map (shift_box l) bs"
  by (induction l acc bs rule: translate_boxes.induct) (simp_all add: shift_box_def)

lemma patch_loop_eq:
  "patch_loop acc ps =
     \<lparr> boxes = boxes acc @ concat (map (\<lambda>(m, l). map (shift_box l) (boxes m)) ps),
       labels = labels acc @ concat (map (\<lambda>(m, l). labels m) ps),
       scores = scores acc @ concat (map (\<lambda>(m, l). scores m) ps) \<rparr>"
  by (induction acc ps rule: patch_loop.induct) (simp_all add: translate_boxes_map)

text \<open>
  C6. The boxes of the stitched set are the boxes of each patch, in order, with the
  \<open>(x_min, y_min)\<close> of the patch's limits added to both corners and nothing else done to
  them; labels and scores are concatenated unchanged. When every patch has its limits,
  no label and no score is lost.
\<close>

theorem frcnn_patch_maps_translation:
  "boxes (frcnn_patch_maps maps limits) =
     concat (map (\<lambda>(m, l). map (\<lambda>(x1, y1, x2, y2).
        (x1 + of_int (x_min l), y1 + of_int (y_min l), x2 + of_int (x_min l), y2 + of_int (y_min l)))
        (boxes m)) (zip maps limits))
   \<and> labels (frcnn_patch_maps maps limits) = concat (map (\<lambda>(m, l). labels m) (zip maps limits))
   \<and> scores (frcnn_patch_maps maps limits) = concat (map (\<lambda>(m, l). scores m) (zip maps limits))
   \<and> (length maps \<le> length limits \<longrightarrow>
        labels (frcnn_patch_maps maps limits) = concat (map labels maps) \<and>
        scores (frcnn_patch_maps maps limits) = concat (map scores maps))"
proof -
  have sb: "\<And>l. shift_box l = (\<lambda>(x1, y1, x2, y2).
        (x1 + of_int (x_min l), y1 + of_int (y_min l), x2 + of_int (x_min l), y2 + of_int (y_min l)))"
    by (auto simp: fun_eq_iff shift_box_def)
  have f: "length maps \<le> length limits \<Longrightarrow> map fst (zip maps limits) = maps"
    by (simp add: map_fst_zip_take)
  have g: "\<And>h. map (\<lambda>(m, l). h m) (zip maps limits) = map h (map fst (zip maps limits))"
    by (simp add: case_prod_beta)
  show ?thesis
    unfolding frcnn_patch_maps_def patch_loop_eq
    using f by (simp add: g sb)
qed

theorem frcnn_patch_maps_translation_witness:
  "length [\<lparr> boxes = [(10, 10, 20, 20)], labels = [3], scores = [9/10] \<rparr>]
     \<le> length [\<lparr> x_min = 100, y_min = 50, x_max = 356, y_max = 306 \<rparr>] \<and>
   frcnn_patch_maps [\<lparr> boxes = [(10, 10, 20, 20)], labels = [3], scores = [9/10] \<rparr>]
                    [\<lparr> x_min = 100, y_min = 50, x_max = 356, y_max = 306 \<rparr>]
   = \<lparr> boxes = [(110, 60, 120, 70)], labels = [3], scores = [9/10] \<rparr>"
  using frcnn_patch_maps_translation
    [of "[\<lparr> boxes = [(10, 10, 20, 20)], labels = [3], scores = [9/10] \<rparr>]"
        "[\<lparr> x_min = 100, y_min = 50, x_max = 356, y_max = 306 \<rparr>]"]
  by (simp add: frcnn_patch_maps_def)

section \<open>Suppression and thresholding\<close>

lemma nms_keep_subset: "set (nms_keep thr bs xs) \<subseteq> set xs"
  by (induction thr bs xs rule: nms_keep.induct) auto

lemma nms_keep_length: "length (nms_keep thr bs xs) \<le> length xs"
proof (induction thr bs xs rule: nms_keep.induct)
  case (1 thr bs)
  show ?case by simp
next
  case (2 thr bs i rest)
  have "length (filter (\<lambda>j. \<not> iou_exceeds thr (bs ! i) (bs ! j)) rest) \<le> length rest"
    by simp
  with 2 have "length (nms_keep thr bs (filter (\<lambda>j. \<not> iou_exceeds thr (bs ! i) (bs ! j)) rest))
      \<le> length rest"
    by (rule le_trans)
  then show ?case by simp
qed

lemma nms_indices:
  assumes "nms bs ss thr = Inr keep"
  shows "length bs = length ss" and "\<forall>i \<in> set keep. i < length ss" and "length keep \<le> length ss"
proof -
  from assms show len: "length bs = length ss"
    by (auto simp: nms_def split: if_splits)
  from assms len have k: "keep = nms_keep thr bs (sort_key (\<lambda>i. - (ss ! i)) [0..<length ss])"
    by (simp add: nms_def)
  have "set keep \<subseteq> set (sort_key (\<lambda>i. - (ss ! i)) [0..<length ss])"
    unfolding k by (rule nms_keep_subset)
  then show "\<forall>i \<in> set keep. i < length ss" by auto
  have "length keep \<le> length (sort_key (\<lambda>i. - (ss ! i)) [0..<length ss])"
    unfolding k by (rule nms_keep_length)
  then show "length keep \<le> length ss" by simp
qed

lemma take_at_ok: "\<forall>i \<in> set idx. i < length xs \<Longrightarrow> take_at xs idx = Inr (map (\<lambda>i. xs ! i) idx)"
  by (simp add: take_at_def)

lemma select_all_ok:
  assumes "\<forall>i \<in> set idx. i < length (boxes m)"
    and "length (labels m) = length (boxes m)" and "length (scores m) = length (boxes m)"
  shows "select_all m idx =
    Inr \<lparr> boxes = map (\<lambda>i. boxes m ! i) idx, labels = map (\<lambda>i. labels m ! i) idx,
          scores = map (\<lambda>i. scores m ! i) idx \<rparr>"
  using assms by (simp add: select_all_def take_at_ok)

lemma above_threshold_bound: "\<forall>i \<in> set (above_threshold thr ss). i < length ss"
  by (simp add: above_threshold_def)

lemma map_nth_above:
  "map (\<lambda>i. f (xs ! i)) (above_threshold thr (map g xs)) = map f (filter (\<lambda>x. thr < g x) xs)"
proof -
  have a: "filter (\<lambda>i. thr < map g xs ! i) [0..<length xs]
           = filter ((\<lambda>x. thr < g x) \<circ> (\<lambda>i. xs ! i)) [0..<length xs]"
    by (rule filter_cong) auto
  have "map (\<lambda>i. xs ! i) (filter ((\<lambda>x. thr < g x) \<circ> (\<lambda>i. xs ! i)) [0..<length xs])
        = filter (\<lambda>x. thr < g x) (map (\<lambda>i. xs ! i) [0..<length xs])"
    by (simp only: filter_map)
  also have "\<dots> = filter (\<lambda>x. thr < g x) xs"
    by (simp only: map_nth)
  finally have b: "map (\<lambda>i. xs ! i) (filter ((\<lambda>x. thr < g x) \<circ> (\<lambda>i. xs ! i)) [0..<length xs])
        = filter (\<lambda>x. thr < g x) xs" .
  have "map (\<lambda>i. f (xs ! i)) (above_threshold thr (map g xs))
        = map f (map (\<lambda>i. xs ! i) (filter ((\<lambda>x. thr < g x) \<circ> (\<lambda>i. xs ! i)) [0..<length xs]))"
    by (simp add: above_threshold_def a)
  then show ?thesis by (simp only: b)
qed

lemma zip3_maps: "zip (map fst xs) (zip (map (fst \<circ> snd) xs) (map (snd \<circ> snd) xs)) = xs"
  by (induction xs) auto

lemma frcnn_reduce_explicit:
  assumes wl: "length (labels m) = length (boxes m)"
    and ws: "length (scores m) = length (boxes m)"
  shows "\<exists>keep. nms (boxes m) (scores m) (nms_threshold st) = Inr keep \<and>
           (\<forall>i \<in> set keep. i < length (boxes m)) \<and> length keep \<le> length (boxes m) \<and>
           frcnn_reduce st m =
             Inr \<lparr> boxes = map fst (filter (\<lambda>x. score_threshold st < snd (snd x))
                                 (map (\<lambda>i. (boxes m ! i, labels m ! i, scores m ! i)) keep)),
                   labels = map (fst \<circ> snd) (filter (\<lambda>x. score_threshold st < snd (snd x))
                                 (map (\<lambda>i. (boxes m ! i, labels m ! i, scores m ! i)) keep)),
                   scores = map (snd \<circ> snd) (filter (\<lambda>x. score_threshold st < snd (snd x))
                                 (map (\<lambda>i. (boxes m ! i, labels m ! i, scores m ! i)) keep)) \<rparr>"
proof (cases "boxes m = []")
  case True
  with wl ws have "nms (boxes m) (scores m) (nms_threshold st) = Inr []"
    by (simp add: nms_def)
  moreover from True have "frcnn_reduce st m = Inr m"
    by (simp add: frcnn_reduce_def)
  moreover from True wl ws have "m = \<lparr> boxes = [], labels = [], scores = [] \<rparr>"
    by simp
  ultimately show ?thesis by simp
next
  case False
  from ws obtain keep where k: "nms (boxes m) (scores m) (nms_threshold st) = Inr keep"
    by (auto simp: nms_def)
  have kb: "\<forall>i \<in> set keep. i < length (boxes m)"
    using nms_indices(2) [OF k] ws by simp
  have kl: "length keep \<le> length (boxes m)"
    using nms_indices(3) [OF k] ws by simp
  let ?ds = "map (\<lambda>i. (boxes m ! i, labels m ! i, scores m ! i)) keep"
  let ?thr = "score_threshold st"
  let ?F = "filter (\<lambda>x. ?thr < (snd \<circ> snd) x) ?ds"
  let ?red = "\<lparr> boxes = map fst ?ds, labels = map (fst \<circ> snd) ?ds, scores = map (snd \<circ> snd) ?ds \<rparr>"
  let ?idx = "above_threshold ?thr (map (snd \<circ> snd) ?ds)"
  have sel: "select_all m keep = Inr ?red"
    using select_all_ok [OF kb wl ws] by (simp add: comp_def)
  have bound: "\<forall>i \<in> set ?idx. i < length ?ds"
    using above_threshold_bound [of ?thr "map (snd \<circ> snd) ?ds"] by simp
  have sel2: "select_all ?red ?idx =
      Inr \<lparr> boxes = map (\<lambda>i. boxes ?red ! i) ?idx, labels = map (\<lambda>i. labels ?red ! i) ?idx,
            scores = map (\<lambda>i. scores ?red ! i) ?idx \<rparr>"
    by (rule select_all_ok) (use bound in simp_all)
  have b: "map (\<lambda>i. boxes ?red ! i) ?idx = map fst ?F"
  proof -
    have "map (\<lambda>i. boxes ?red ! i) ?idx = map (\<lambda>i. fst (?ds ! i)) ?idx"
      by (rule map_cong) (use bound in simp_all)
    then show ?thesis by (simp only: map_nth_above)
  qed
  have l: "map (\<lambda>i. labels ?red ! i) ?idx = map (fst \<circ> snd) ?F"
  proof -
    have "map (\<lambda>i. labels ?red ! i) ?idx = map (\<lambda>i. (fst \<circ> snd) (?ds ! i)) ?idx"
      by (rule map_cong) (use bound in simp_all)
    then show ?thesis by (simp only: map_nth_above)
  qed
  have s: "map (\<lambda>i. scores ?red ! i) ?idx = map (snd \<circ> snd) ?F"
  proof -
    have "map (\<lambda>i. scores ?red ! i) ?idx = map (\<lambda>i. (snd \<circ> snd) (?ds ! i)) ?idx"
      by (rule map_cong) (use bound in simp_all)
    then show ?thesis by (simp only: map_nth_above)
  qed
  have "frcnn_reduce st m = select_all ?red ?idx"
    using False k sel by (simp add: frcnn_reduce_def)
  also have "\<dots> = Inr \<lparr> boxes = map fst ?F, labels = map (fst \<circ> snd) ?F, scores = map (snd \<circ> snd) ?F \<rparr>"
    by (simp only: sel2 b l s)
  finally have "frcnn_reduce st m =
      Inr \<lparr> boxes = map fst ?F, labels = map (fst \<circ> snd) ?F, scores = map (snd \<circ> snd) ?F \<rparr>" .
  with k kb kl show ?thesis by (simp add: comp_def)
qed

text \<open>
  C9. A detection set without boxes is returned as it is: no suppression, no
  thresholding, no error.
\<close>

theorem frcnn_reduce_empty:
  "boxes m = [] \<Longrightarrow> frcnn_reduce st m = Inr m"
  by (simp add: frcnn_reduce_def)

theorem frcnn_reduce_empty_witness:
  "boxes (frcnn_patch_maps [\<lparr> boxes = [], labels = [], scores = [] \<rparr>]
            [\<lparr> x_min = 0, y_min = 0, x_max = 256, y_max = 256 \<rparr>]) = [] \<and>
   frcnn_reduce \<lparr> model = (), size_hw = (256, 256), overlap = 64, batch_size = 1, down_ratio = 1,
           up = False, reduction = ''sum'', device = ''cpu'',
           nms_threshold = 1/2, score_threshold = 0 \<rparr>
     (frcnn_patch_maps [\<lparr> boxes = [], labels = [], scores = [] \<rparr>]
            [\<lparr> x_min = 0, y_min = 0, x_max = 256, y_max = 256 \<rparr>])
   = Inr \<lparr> boxes = [], labels = [], scores = [] \<rparr>"
proof -
  have h: "boxes (frcnn_patch_maps [\<lparr> boxes = [], labels = [], scores = [] \<rparr>]
            [\<lparr> x_min = 0, y_min = 0, x_max = 256, y_max = 256 \<rparr>]) = []"
    by (simp add: frcnn_patch_maps_def)
  show ?thesis
    using h frcnn_reduce_empty [OF h, of "\<lparr> model = (), size_hw = (256, 256), overlap = 64, batch_size = 1, down_ratio = 1,
           up = False, reduction = ''sum'', device = ''cpu'',
           nms_threshold = 1/2, score_threshold = 0 \<rparr>"]
    by (simp add: frcnn_patch_maps_def)
qed

text \<open>
  C7. On a set whose three tensors have the same length, \<open>_reduce\<close> returns, and its
  result is the list of the detections kept by the suppression, filtered by
  \<open>score > score_threshold\<close>: no returned score equals the threshold or lies below it,
  and every kept detection with a score above the threshold is returned.
\<close>

theorem frcnn_reduce_strict_threshold:
  assumes wl: "length (labels m) = length (boxes m)"
    and ws: "length (scores m) = length (boxes m)"
  shows "\<exists>keep r. nms (boxes m) (scores m) (nms_threshold st) = Inr keep \<and>
           frcnn_reduce st m = Inr r \<and>
           dets r = filter (\<lambda>(b, l, s). score_threshold st < s)
                      (map (\<lambda>i. (boxes m ! i, labels m ! i, scores m ! i)) keep) \<and>
           (\<forall>(b, l, s) \<in> set (dets r). s \<noteq> score_threshold st \<and> score_threshold st < s) \<and>
           (\<forall>i \<in> set keep. score_threshold st < scores m ! i \<longrightarrow>
               (boxes m ! i, labels m ! i, scores m ! i) \<in> set (dets r)) \<and>
           (\<forall>i \<in> set keep. scores m ! i \<le> score_threshold st \<longrightarrow>
               scores m ! i \<notin> set (scores r))"
proof -
  let ?thr = "score_threshold st"
  obtain keep where k: "nms (boxes m) (scores m) (nms_threshold st) = Inr keep"
    and r: "frcnn_reduce st m =
             Inr \<lparr> boxes = map fst (filter (\<lambda>x. ?thr < snd (snd x))
                                 (map (\<lambda>i. (boxes m ! i, labels m ! i, scores m ! i)) keep)),
                   labels = map (fst \<circ> snd) (filter (\<lambda>x. ?thr < snd (snd x))
                                 (map (\<lambda>i. (boxes m ! i, labels m ! i, scores m ! i)) keep)),
                   scores = map (snd \<circ> snd) (filter (\<lambda>x. ?thr < snd (snd x))
                                 (map (\<lambda>i. (boxes m ! i, labels m ! i, scores m ! i)) keep)) \<rparr>"
    using frcnn_reduce_explicit [OF wl ws, of st] by blast
  let ?ds = "map (\<lambda>i. (boxes m ! i, labels m ! i, scores m ! i)) keep"
  let ?F = "filter (\<lambda>x. ?thr < snd (snd x)) ?ds"
  let ?r = "\<lparr> boxes = map fst ?F, labels = map (fst \<circ> snd) ?F, scores = map (snd \<circ> snd) ?F \<rparr>"
  have P: "(\<lambda>(b, l, s). ?thr < s) = (\<lambda>x. ?thr < snd (snd x))"
    by (auto simp: fun_eq_iff)
  have d: "dets ?r = ?F"
    by (simp add: dets_def zip3_maps)
  have c1: "dets ?r = filter (\<lambda>(b, l, s). ?thr < s) ?ds"
    unfolding P by (rule d)
  have c2: "\<forall>(b, l, s) \<in> set (dets ?r). s \<noteq> ?thr \<and> ?thr < s"
    unfolding d by auto
  have c3: "\<forall>i \<in> set keep. ?thr < scores m ! i \<longrightarrow>
               (boxes m ! i, labels m ! i, scores m ! i) \<in> set (dets ?r)"
    unfolding d by auto
  have c4: "\<forall>i \<in> set keep. scores m ! i \<le> ?thr \<longrightarrow> scores m ! i \<notin> set (scores ?r)"
    by auto
  from k r c1 c2 c3 c4 show ?thesis by blast
qed

theorem frcnn_reduce_strict_threshold_witness:
  "\<exists>keep r.
     nms [(0, 0, 10, 10), (100, 100, 110, 110), (200, 200, 210, 210)] [1/2, 9/10, 3/10] (1/2) = Inr keep \<and>
     frcnn_reduce \<lparr> model = (), size_hw = (256, 256), overlap = 64, batch_size = 1, down_ratio = 1,
           up = False, reduction = ''sum'', device = ''cpu'',
           nms_threshold = 1/2, score_threshold = 1/2 \<rparr>
       \<lparr> boxes = [(0, 0, 10, 10), (100, 100, 110, 110), (200, 200, 210, 210)],
         labels = [1, 2, 3], scores = [1/2, 9/10, 3/10] \<rparr> = Inr r \<and>
     r = \<lparr> boxes = [(100, 100, 110, 110)], labels = [2], scores = [9/10] \<rparr> \<and>
     (\<forall>(b, l, s) \<in> set (dets r). s \<noteq> 1/2 \<and> 1/2 < s)"
  using frcnn_reduce_strict_threshold
    [of "\<lparr> boxes = [(0, 0, 10, 10), (100, 100, 110, 110), (200, 200, 210, 210)],
          labels = [1, 2, 3], scores = [1/2, 9/10, 3/10] \<rparr>"
        "\<lparr> model = (), size_hw = (256, 256), overlap = 64, batch_size = 1, down_ratio = 1,
           up = False, reduction = ''sum'', device = ''cpu'',
           nms_threshold = 1/2, score_threshold = 1/2 \<rparr>"]
  by (simp add: frcnn_reduce_def nms_def iou_exceeds_def area_def select_all_def take_at_def above_threshold_def dets_def)

section \<open>Count and extent of the stitched detections\<close>

lemma patch_maps_lengths:
  assumes "\<forall>m \<in> set maps. length (labels m) = length (boxes m) \<and> length (scores m) = length (boxes m)"
  shows "length (labels (frcnn_patch_maps maps limits)) = length (boxes (frcnn_patch_maps maps limits))"
    and "length (scores (frcnn_patch_maps maps limits)) = length (boxes (frcnn_patch_maps maps limits))"
proof -
  have wf: "\<forall>(m, l) \<in> set (zip maps limits).
              length (labels m) = length (boxes m) \<and> length (scores m) = length (boxes m)"
    using assms by (auto dest: set_zip_leftD)
  have "length (concat (map (\<lambda>(m, l). labels m) ps)) = length (concat (map (\<lambda>(m, l). map (shift_box l) (boxes m)) ps))
      \<and> length (concat (map (\<lambda>(m, l). scores m) ps)) = length (concat (map (\<lambda>(m, l). map (shift_box l) (boxes m)) ps))"
    if "\<forall>(m, l) \<in> set ps. length (labels m) = length (boxes m) \<and> length (scores m) = length (boxes m)"
    for ps :: "(detections \<times> bbox) list"
    using that by (induction ps) auto
  from this [OF wf]
  show "length (labels (frcnn_patch_maps maps limits)) = length (boxes (frcnn_patch_maps maps limits))"
    and "length (scores (frcnn_patch_maps maps limits)) = length (boxes (frcnn_patch_maps maps limits))"
    by (simp_all add: frcnn_patch_maps_def patch_loop_eq)
qed

lemma patch_maps_boxes_set:
  "set (boxes (frcnn_patch_maps maps limits)) =
     (\<Union>(m, l) \<in> set (zip maps limits). shift_box l ` set (boxes m))"
  by (auto simp: frcnn_patch_maps_def patch_loop_eq)

lemma within_patch_inside: "within_patch l b \<Longrightarrow> inside l (shift_box l b)"
  by (cases b) (auto simp: within_patch_def inside_def shift_box_def)

text \<open>
  C8 (amended). The stitcher returns at most as many detections as the concatenated
  input holds, and each returned box is one of the translated input boxes. If every box
  a patch reports lies within the extent of that patch, every returned box lies inside
  the pixel box of some patch.
\<close>

theorem frcnn_stitch_count_and_extent:
  assumes wf: "\<forall>m \<in> set maps. length (labels m) = length (boxes m) \<and> length (scores m) = length (boxes m)"
  shows "\<exists>r. frcnn_reduce st (frcnn_patch_maps maps limits) = Inr r \<and>
            length (boxes r) \<le> length (boxes (frcnn_patch_maps maps limits)) \<and>
            set (boxes r) \<subseteq> set (boxes (frcnn_patch_maps maps limits)) \<and>
            ((\<forall>(m, l) \<in> set (zip maps limits). \<forall>b \<in> set (boxes m). within_patch l b) \<longrightarrow>
             (\<forall>b \<in> set (boxes r). \<exists>l \<in> set limits. inside l b))"
proof -
  let ?pm = "frcnn_patch_maps maps limits"
  let ?thr = "score_threshold st"
  note wl = patch_maps_lengths(1) [OF wf, of limits]
  note ws = patch_maps_lengths(2) [OF wf, of limits]
  obtain keep where kb: "\<forall>i \<in> set keep. i < length (boxes ?pm)"
    and kl: "length keep \<le> length (boxes ?pm)"
    and r: "frcnn_reduce st ?pm =
             Inr \<lparr> boxes = map fst (filter (\<lambda>x. ?thr < snd (snd x))
                                 (map (\<lambda>i. (boxes ?pm ! i, labels ?pm ! i, scores ?pm ! i)) keep)),
                   labels = map (fst \<circ> snd) (filter (\<lambda>x. ?thr < snd (snd x))
                                 (map (\<lambda>i. (boxes ?pm ! i, labels ?pm ! i, scores ?pm ! i)) keep)),
                   scores = map (snd \<circ> snd) (filter (\<lambda>x. ?thr < snd (snd x))
                                 (map (\<lambda>i. (boxes ?pm ! i, labels ?pm ! i, scores ?pm ! i)) keep)) \<rparr>"
    using frcnn_reduce_explicit [OF wl ws, of st] by blast
  let ?F = "filter (\<lambda>x. ?thr < snd (snd x))
              (map (\<lambda>i. (boxes ?pm ! i, labels ?pm ! i, scores ?pm ! i)) keep)"
  have len: "length (map fst ?F) \<le> length (boxes ?pm)"
  proof -
    have "length ?F \<le> length (map (\<lambda>i. (boxes ?pm ! i, labels ?pm ! i, scores ?pm ! i)) keep)"
      by (rule length_filter_le)
    also have "\<dots> = length keep" by simp
    also note kl
    finally show ?thesis by simp
  qed
  have sub: "set (map fst ?F) \<subseteq> set (boxes ?pm)"
    using kb by auto
  have ext: "\<forall>b \<in> set (map fst ?F). \<exists>l \<in> set limits. inside l b"
    if loc: "\<forall>(m, l) \<in> set (zip maps limits). \<forall>b \<in> set (boxes m). within_patch l b"
  proof
    fix b assume "b \<in> set (map fst ?F)"
    with sub have "b \<in> set (boxes ?pm)" by blast
    then obtain m l b0 where ml: "(m, l) \<in> set (zip maps limits)" and b0: "b0 \<in> set (boxes m)"
      and b: "b = shift_box l b0"
      unfolding patch_maps_boxes_set by auto
    from loc ml b0 have "within_patch l b0" by auto
    then have "inside l b" unfolding b by (rule within_patch_inside)
    moreover from ml have "l \<in> set limits" by (rule set_zip_rightD)
    ultimately show "\<exists>l \<in> set limits. inside l b" by blast
  qed
  from r len sub ext show ?thesis by simp
qed

theorem frcnn_stitch_count_and_extent_witness:
  "frcnn_reduce \<lparr> model = (), size_hw = (256, 256), overlap = 64, batch_size = 1, down_ratio = 1,
           up = False, reduction = ''sum'', device = ''cpu'',
           nms_threshold = 1/2, score_threshold = 0 \<rparr>
     (frcnn_patch_maps
        [\<lparr> boxes = [(10, 10, 20, 20)], labels = [3], scores = [9/10] \<rparr>,
         \<lparr> boxes = [(0, 0, 256, 256)], labels = [1], scores = [0] \<rparr>]
        [\<lparr> x_min = 0, y_min = 0, x_max = 256, y_max = 256 \<rparr>,
         \<lparr> x_min = 192, y_min = 0, x_max = 448, y_max = 256 \<rparr>])
   = Inr \<lparr> boxes = [(10, 10, 20, 20)], labels = [3], scores = [9/10] \<rparr> \<and>
   within_patch \<lparr> x_min = 0, y_min = 0, x_max = 256, y_max = 256 \<rparr> (10, 10, 20, 20) \<and>
   within_patch \<lparr> x_min = 192, y_min = 0, x_max = 448, y_max = 256 \<rparr> (0, 0, 256, 256) \<and>
   inside \<lparr> x_min = 0, y_min = 0, x_max = 256, y_max = 256 \<rparr> (10, 10, 20, 20)"
  using frcnn_stitch_count_and_extent
    [of "[\<lparr> boxes = [(10, 10, 20, 20)], labels = [3], scores = [9/10] \<rparr>,
         \<lparr> boxes = [(0, 0, 256, 256)], labels = [1], scores = [0] \<rparr>]"
        "\<lparr> model = (), size_hw = (256, 256), overlap = 64, batch_size = 1, down_ratio = 1,
           up = False, reduction = ''sum'', device = ''cpu'',
           nms_threshold = 1/2, score_threshold = 0 \<rparr>"
        "[\<lparr> x_min = 0, y_min = 0, x_max = 256, y_max = 256 \<rparr>,
         \<lparr> x_min = 192, y_min = 0, x_max = 448, y_max = 256 \<rparr>]"]
  by (simp add: frcnn_reduce_def frcnn_patch_maps_def nms_def iou_exceeds_def area_def
      select_all_def take_at_def above_threshold_def within_patch_def inside_def)

text \<open>
  C8 as stated fails: the boxes are translated and never clipped, so a box that the
  model places outside its patch leaves the only patch box there is.
\<close>

theorem frcnn_box_outside_counterexample:
  "frcnn_reduce \<lparr> model = (), size_hw = (256, 256), overlap = 64, batch_size = 1, down_ratio = 1,
           up = False, reduction = ''sum'', device = ''cpu'',
           nms_threshold = 1/2, score_threshold = 0 \<rparr>
     (frcnn_patch_maps
        [\<lparr> boxes = [(-5, -5, 300, 300)], labels = [1], scores = [9/10] \<rparr>]
        [\<lparr> x_min = 0, y_min = 0, x_max = 256, y_max = 256 \<rparr>])
   = Inr \<lparr> boxes = [(-5, -5, 300, 300)], labels = [1], scores = [9/10] \<rparr> \<and>
   \<not> inside \<lparr> x_min = 0, y_min = 0, x_max = 256, y_max = 256 \<rparr> (-5, -5, 300, 300)"
  by (simp add: frcnn_reduce_def frcnn_patch_maps_def nms_def iou_exceeds_def area_def
      select_all_def take_at_def above_threshold_def inside_def)

section \<open>Dense stitching of a single-channel image\<close>

lemma then_do_isl: "(\<And>v. r = Inr v \<Longrightarrow> isl (f v)) \<Longrightarrow> isl (then_do r f)"
  by (cases r) simp_all

lemma then_do_fails: "isl r \<Longrightarrow> isl (then_do r f)"
  by (cases r) simp_all

lemma reduce_needs_channel_one:
  assumes c: "img_c (img st) \<le> 1"
    and k: "reduction st = ''mean'' \<longrightarrow> (\<forall>im sz ov. keeps_channels extract im sz ov)"
  shows "isl (reduce extract st mp)"
proof (cases "down_ratio st = 0 \<or> int (img_h (img st)) div down_ratio st < 0
              \<or> int (img_w (img st)) div down_ratio st < 0")
  case True
  then show ?thesis by (auto simp: reduce_def Let_def)
next
  case False
  let ?ones = "full3 (img_c (img st)) (nat (int (img_h (img st)) div down_ratio st))
                 (nat (int (img_w (img st)) div down_ratio st)) 1"
  let ?sz = "(fst (size_hw st) div down_ratio st, snd (size_hw st) div down_ratio st)"
  have oc: "img_c ?ones \<le> 1" using c by (simp add: full3_def)
  show ?thesis
  proof (cases "reduction st = ''mean''")
    case mean: True
    have "isl (then_do (extract ?ones ?sz (overlap st div down_ratio st))
                 (\<lambda>tl. then_do (channel_one (t_patches tl)) (patch_maps st)))"
    proof (rule then_do_isl)
      fix tl assume e: "extract ?ones ?sz (overlap st div down_ratio st) = Inr tl"
      from k mean have "keeps_channels extract ?ones ?sz (overlap st div down_ratio st)" by blast
      with e have "dim_c (t_patches tl) = img_c ?ones"
        by (simp add: keeps_channels_def)
      with oc have "channel_one (t_patches tl) = Inl IndexError"
        by (simp add: channel_one_def)
      then show "isl (then_do (channel_one (t_patches tl)) (patch_maps st))" by simp
    qed
    then have "isl (then_do (then_do (extract ?ones ?sz (overlap st div down_ratio st))
                 (\<lambda>tl. then_do (channel_one (t_patches tl)) (patch_maps st))) (tdiv mp))"
      by (rule then_do_fails)
    with False mean show ?thesis
      by (simp add: reduce_def Let_def)
  next
    case other: False
    with False oc show ?thesis by (simp add: reduce_def Let_def)
  qed
qed

lemma call_needs_channel_one:
  assumes c: "img_c image' \<le> 1"
    and k: "reduction st = ''mean'' \<longrightarrow> (\<forall>im sz ov. keeps_channels extract im sz ov)"
  shows "isl (stitch_call extract interpolate st image')"
  unfolding stitch_call_def Let_def
proof (intro then_do_isl)
  fix tl det_maps patched_map patched_map'
  let ?self = "stitcher.extend st \<lparr> img = image', nrow = t_nrow tl, ncol = t_ncol tl \<rparr>"
  assume r: "reduce extract ?self patched_map = Inr patched_map'"
  have "img_c (img ?self) \<le> 1"
    using c by (simp add: stitcher.defs)
  moreover have "reduction ?self = ''mean'' \<longrightarrow> (\<forall>im sz ov. keeps_channels extract im sz ov)"
    using k by (simp add: stitcher.defs)
  ultimately have "isl (reduce extract ?self patched_map)"
    by (rule reduce_needs_channel_one)
  with r show "isl (if up st then interpolate patched_map' (down_ratio st) else Inr patched_map')"
    by simp
qed

lemma spec_extract_keeps_channels: "keeps_channels spec_extract im sz ov"
  by (simp add: keeps_channels_def spec_extract_def Let_def)

text \<open>
  C10. The call on a single-channel image fails in every reduction mode: the
  normalisation reads channel 1 of the ones tensor (\<open>sum\<close>, \<open>max\<close>) or of its patches
  (\<open>mean\<close>), and there is none. For \<open>mean\<close> this needs an extractor whose patches have the
  channels of the image they are cut from. A call that returns a map was given an image
  of at least two channels.
\<close>

theorem single_channel_call_fails:
  assumes k: "red = ''mean'' \<longrightarrow> (\<forall>im sz ov. keeps_channels extract im sz ov)"
  shows "(img_c image' = 1 \<longrightarrow>
            isl (stitch_call extract interpolate (st \<lparr> reduction := red \<rparr>) image')) \<and>
         (\<not> isl (stitch_call extract interpolate (st \<lparr> reduction := red \<rparr>) image') \<longrightarrow>
            2 \<le> img_c image')"
proof -
  have k': "reduction (st \<lparr> reduction := red \<rparr>) = ''mean'' \<longrightarrow>
              (\<forall>im sz ov. keeps_channels extract im sz ov)"
    using k by simp
  have "isl (stitch_call extract interpolate (st \<lparr> reduction := red \<rparr>) image')"
    if "img_c image' \<le> 1"
    using that k' by (rule call_needs_channel_one)
  then show ?thesis by (cases "img_c image' \<le> 1") auto
qed

theorem single_channel_call_fails_witness:
  "img_c (full3 1 512 512 (1/2)) = 1 \<and>
   (\<forall>im sz ov. keeps_channels spec_extract im sz ov) \<and>
   isl (stitch_call spec_extract (\<lambda>t r. Inr t)
     (\<lparr> model = ones_model, size_hw = (256, 256), overlap = 64, batch_size = 1, down_ratio = 1,
        up = False, reduction = ''sum'', device = ''cpu'' \<rparr> \<lparr> reduction := ''mean'' \<rparr>)
     (full3 1 512 512 (1/2)))"
proof -
  have h1: "img_c (full3 1 512 512 (1/2)) = 1" by (simp add: full3_def)
  have h2: "\<forall>im sz ov. keeps_channels spec_extract im sz ov"
    by (simp add: spec_extract_keeps_channels)
  then have h3: "''mean'' = ''mean'' \<longrightarrow> (\<forall>im sz ov. keeps_channels spec_extract im sz ov)"
    by simp
  from h1 h2 single_channel_call_fails [OF h3, of "full3 1 512 512 (1/2)"] show ?thesis by blast
qed

lemmas call_eval = stitch_call_def spec_extract_def grid_count_def full3_def full4_def Let_def
      inference_def dataloader_def sub_batch_def then_do_def
      patch_maps_def cat_def fold_def fold_blocks_def crop_def norm_index_def
      reduce_def channel_one_def stitcher.defs upt_conv_Cons
      tdiv_def bdim_def bidx_def fold_entry_def view_rows_def
      max_fold_def max_fold_locs_def fn_def range0_def unbind_def set_patch_def tmax_def

text \<open>
  C1. The end-to-end example of the specification: a single-channel image of 512 by 512,
  patches of 256 by 256, overlap 64, reduction \<open>mean\<close>, a model returning ones. Tiling,
  inference and overlap-add succeed; the normalisation then reads channel 1 of the
  single-channel patches of ones and the call ends with IndexError instead of a map of
  ones.
\<close>

theorem single_channel_mean_index_error: "stitch_call spec_extract interp
     \<lparr> model = ones_model, size_hw = (256, 256), overlap = 64, batch_size = 1, down_ratio = 1,
       up = False, reduction = ''mean'', device = ''cpu'' \<rparr>
     (full3 1 512 512 (1/2)) = Inl IndexError"
  by (simp add: stitch_call_def spec_extract_def grid_count_def full3_def full4_def Let_def
      inference_def dataloader_def sub_batch_def ones_model_def then_do_def
      patch_maps_def cat_def fold_def fold_blocks_def crop_def norm_index_def
      reduce_def channel_one_def stitcher.defs upt_conv_Cons)

section \<open>Overlap zero\<close>

text \<open>
  The boxes that \<open>_max_fold\<close> lists along one axis, for an output of \<open>n\<close> strides plus
  the overlap. With an overlap between 1 and the stride there is one box per patch; with
  no overlap the dropped element is the start of the last patch, and one box is missing.
\<close>

lemma fn_with_overlap:
  assumes s: "0 < s" and o: "0 < ov" "ov \<le> s"
  shows "fn (int n * s + ov) k s = Inr (map (\<lambda>i. (int i * s, int i * s + k)) [0..<n])"
proof -
  have e: "int n * s + ov + s - 1 = (ov + s - 1) + int n * s" by simp
  have "(int n * s + ov + s - 1) div s = ((ov + s - 1) + int n * s) div s" by (simp only: e)
  also have "\<dots> = int n + (ov + s - 1) div s"
    using s by (intro div_mult_self1) simp
  finally have "(int n * s + ov + s - 1) div s = int n + (ov + s - 1) div s" .
  moreover have "(ov + s - 1) div s = 1"
  proof -
    have e1: "ov + s - 1 = (ov - 1) + 1 * s" by simp
    have "(ov + s - 1) div s = ((ov - 1) + 1 * s) div s" by (simp only: e1)
    also have "\<dots> = 1 + (ov - 1) div s"
      using s by (intro div_mult_self1) simp
    also have "(ov - 1) div s = 0"
      using o by (intro div_pos_pos_trivial) simp_all
    finally show ?thesis by simp
  qed
  ultimately have "nat ((int n * s + ov + s - 1) div s) = Suc n" by simp
  then have "range0 (int n * s + ov) s = Inr (map (\<lambda>i. int i * s) [0..<Suc n])"
    using s by (simp add: range0_def)
  then show ?thesis
    by (simp add: fn_def butlast_append comp_def)
qed

lemma fn_without_overlap:
  assumes s: "0 < s"
  shows "fn (int n * s) k s = Inr (map (\<lambda>i. (int i * s, int i * s + k)) [0..<n - 1])"
proof -
  have e: "int n * s + s - 1 = (s - 1) + int n * s" by simp
  have "(int n * s + s - 1) div s = ((s - 1) + int n * s) div s" by (simp only: e)
  also have "\<dots> = int n + (s - 1) div s"
    using s by (intro div_mult_self1) simp
  finally have "(int n * s + s - 1) div s = int n + (s - 1) div s" .
  moreover have "(s - 1) div s = 0"
    using s by simp
  ultimately have c: "nat ((int n * s + s - 1) div s) = n" by simp
  then have r: "range0 (int n * s) s = Inr (map (\<lambda>i. int i * s) [0..<n])"
    using s by (simp add: range0_def)
  show ?thesis
  proof (cases n)
    case 0
    with r show ?thesis by (simp add: fn_def)
  next
    case (Suc m)
    with r show ?thesis by (simp add: fn_def butlast_append comp_def)
  qed
qed

lemma length_concat_const:
  "(\<And>x. length (f x) = k) \<Longrightarrow> length (concat (map f xs)) = length xs * k"
  by (induction xs) simp_all

lemma max_fold_locs_without_overlap:
  assumes kh: "0 < kh" and kw: "0 < kw"
    and locs: "max_fold_locs (int n * kh, int m * kw) (kh, kw) (kh, kw) = Inr locs"
  shows "length locs = (n - 1) * (m - 1)"
proof -
  let ?hs = "map (\<lambda>i. (int i * kh, int i * kh + kh)) [0..<n - 1]"
  let ?ws = "map (\<lambda>i. (int i * kw, int i * kw + kw)) [0..<m - 1]"
  have h: "fn (int n * kh) kh kh = Inr ?hs" using kh by (rule fn_without_overlap)
  have w: "fn (int m * kw) kw kw = Inr ?ws" using kw by (rule fn_without_overlap)
  show ?thesis
  proof (cases "?hs = []")
    case True
    with locs h show ?thesis by (simp add: max_fold_locs_def)
  next
    case False
    with locs h w
    have "locs = concat (map (\<lambda>(h0, h1). map (\<lambda>(w0, w1). (h0, h1, w0, w1)) ?ws) ?hs)"
      by (simp add: max_fold_locs_def)
    moreover have "length (concat (map (\<lambda>(h0, h1). map (\<lambda>(w0, w1). (h0, h1, w0, w1)) ?ws) ?hs))
      = length ?hs * length ?ws"
      by (rule length_concat_const) (simp add: case_prod_beta)
    ultimately show ?thesis by simp
  qed
qed

text \<open>
  The overlap-add of \<open>n\<close> by \<open>m\<close> patches without overlap is their tiling: each pixel
  is read from the one patch it lies in.
\<close>

lemma sum_list_single:
  fixes v :: "nat \<Rightarrow> real"
  assumes "a < n"
  shows "(\<Sum>i \<leftarrow> [0..<n]. if i = a then v i else 0) = v a"
proof -
  have "(\<Sum>i \<leftarrow> [0..<n]. if i = a then v i else 0) = (\<Sum>i \<in> {0..<n}. if i = a then v i else 0)"
    by (simp add: interv_sum_list_conv_sum_set_nat)
  also have "\<dots> = v a" using assms by (simp add: sum.delta)
  finally show ?thesis .
qed

lemma block_of_pixel:
  assumes "0 < k"
  shows "(0 \<le> int y - int b * int k \<and> int y - int b * int k < int k) \<longleftrightarrow> b = y div k"
proof -
  have "(0 \<le> int y - int b * int k \<and> int y - int b * int k < int k)
        \<longleftrightarrow> (b * k \<le> y \<and> y < b * k + k)"
    by (simp add: algebra_simps flip: of_nat_mult of_nat_add)
  also have "\<dots> \<longleftrightarrow> b = y div k"
  proof
    assume a: "b * k \<le> y \<and> y < b * k + k"
    then have "y div k = b"
      using assms by (intro div_nat_eqI) (simp_all add: algebra_simps)
    then show "b = y div k" by simp
  next
    assume "b = y div k"
    with assms show "b * k \<le> y \<and> y < b * k + k"
      by (simp add: algebra_simps) (metis dividend_less_times_div mult.commute add.commute)
  qed
  finally show ?thesis .
qed

lemma unravel:
  fixes c i j H W :: nat
  assumes i: "i < H" and j: "j < W"
  shows "(c * H * W + i * W + j) div (H * W) = c"
    and "((c * H * W + i * W + j) div W) mod H = i"
    and "(c * H * W + i * W + j) mod W = j"
proof -
  have W: "0 < W" using j by simp
  have lt: "i * W + j < H * W"
  proof -
    have "i * W + j < i * W + W" using j by simp
    also have "\<dots> = Suc i * W" by simp
    also have "\<dots> \<le> H * W" using i by (intro mult_le_mono1) simp
    finally show ?thesis .
  qed
  have "(c * H * W + i * W + j) div (H * W) = (i * W + j + c * (H * W)) div (H * W)"
    by (simp add: algebra_simps)
  also have "\<dots> = c + (i * W + j) div (H * W)"
    using i W by (subst div_mult_self1) auto
  also have "\<dots> = c" using lt by simp
  finally show "(c * H * W + i * W + j) div (H * W) = c" .
  have "(c * H * W + i * W + j) div W = (j + (c * H + i) * W) div W"
    by (simp add: algebra_simps)
  also have "\<dots> = c * H + i + j div W"
    using W by (subst div_mult_self1) auto
  also have "\<dots> = c * H + i" using j by simp
  finally have d: "(c * H * W + i * W + j) div W = c * H + i" .
  show "((c * H * W + i * W + j) div W) mod H = i"
    unfolding d using i by simp
  have "(c * H * W + i * W + j) mod W = (j + (c * H + i) * W) mod W"
    by (simp add: algebra_simps)
  also have "\<dots> = j" using j by simp
  finally show "(c * H * W + i * W + j) mod W = j" .
qed

lemma fold_blocks_tiling: "0 < k \<Longrightarrow> 0 < n \<Longrightarrow> fold_blocks (int n * int k) (int k) (int k) = int n"
proof -
  assume k: "0 < k" and n: "0 < n"
  have "int n * int k - (int k - 1) - 1 = (int n - 1) * int k" by (simp add: algebra_simps)
  then have "fold_blocks (int n * int k) (int k) (int k) = ((int n - 1) * int k) div int k + 1"
    by (simp only: fold_blocks_def)
  also have "\<dots> = int n" using k by simp
  finally show ?thesis .
qed

lemma cover_iff:
  assumes "0 < H" and "0 < W"
  shows "(0 \<le> int y - int b * int H \<and> int y - int b * int H < int H \<and>
          0 \<le> int x - int d * int W \<and> int x - int d * int W < int W)
         \<longleftrightarrow> (b = y div H \<and> d = x div W)"
  using block_of_pixel [OF assms(1), of y b] block_of_pixel [OF assms(2), of x d] by blast

lemma fold_entry_tiling:
  assumes H: "0 < dim_h maps" and W: "0 < dim_w maps" and n: "0 < n" and m: "0 < m"
    and y: "y < n * dim_h maps" and x: "x < m * dim_w maps"
  shows "fold_entry maps (int n * int (dim_h maps), int m * int (dim_w maps))
           (int (dim_h maps), int (dim_w maps)) (int (dim_h maps), int (dim_w maps)) c y x
         = entry maps ((y div dim_h maps) * m + x div dim_w maps) c (y mod dim_h maps) (x mod dim_w maps)"
proof -
  let ?H = "dim_h maps" and ?W = "dim_w maps"
  let ?pick = "\<lambda>b d. view_rows maps
      (nat (int c * int ?H * int ?W + (int y - int b * int ?H) * int ?W + (int x - int d * int ?W)))
      (b * m + d)"
  have by_lt: "y div ?H < n" using y H by (simp add: less_mult_imp_div_less)
  have bx_lt: "x div ?W < m" using x W by (simp add: less_mult_imp_div_less)
  have cell: "(if 0 \<le> int y - int b * int ?H \<and> int y - int b * int ?H < int ?H \<and>
                  0 \<le> int x - int d * int ?W \<and> int x - int d * int ?W < int ?W
               then ?pick b d else 0)
              = (if d = x div ?W then (if b = y div ?H then ?pick b d else 0) else 0)" for b d
    unfolding cover_iff [OF H W] by simp
  have inner: "(\<Sum>d \<leftarrow> [0..<m].
         if 0 \<le> int y - int b * int ?H \<and> int y - int b * int ?H < int ?H \<and>
            0 \<le> int x - int d * int ?W \<and> int x - int d * int ?W < int ?W
         then ?pick b d else 0)
      = (if b = y div ?H then ?pick b (x div ?W) else 0)" for b
    unfolding cell using bx_lt by (rule sum_list_single)
  have "fold_entry maps (int n * int ?H, int m * int ?W) (int ?H, int ?W) (int ?H, int ?W) c y x
      = (\<Sum>b \<leftarrow> [0..<n]. \<Sum>d \<leftarrow> [0..<m].
         if 0 \<le> int y - int b * int ?H \<and> int y - int b * int ?H < int ?H \<and>
            0 \<le> int x - int d * int ?W \<and> int x - int d * int ?W < int ?W
         then ?pick b d else 0)"
    unfolding fold_entry_def Let_def fst_conv snd_conv
      fold_blocks_tiling [OF H n] fold_blocks_tiling [OF W m] nat_int ..
  also have "\<dots> = (\<Sum>b \<leftarrow> [0..<n]. if b = y div ?H then ?pick b (x div ?W) else 0)"
    unfolding inner ..
  also have "\<dots> = ?pick (y div ?H) (x div ?W)"
    using by_lt by (rule sum_list_single)
  also have "\<dots> = entry maps ((y div ?H) * m + x div ?W) c (y mod ?H) (x mod ?W)"
  proof -
    have dy: "int y - int (y div ?H) * int ?H = int (y mod ?H)"
      by (simp add: of_nat_mod of_nat_div minus_div_mult_eq_mod)
    have dx: "int x - int (x div ?W) * int ?W = int (x mod ?W)"
      by (simp add: of_nat_mod of_nat_div minus_div_mult_eq_mod)
    have k: "nat (int c * int ?H * int ?W + int (y mod ?H) * int ?W + int (x mod ?W))
             = c * ?H * ?W + (y mod ?H) * ?W + x mod ?W"
      by (simp flip: of_nat_mult of_nat_add)
    have i: "y mod ?H < ?H" using H by simp
    have j: "x mod ?W < ?W" using W by simp
    show ?thesis
      unfolding dy dx k view_rows_def unravel [OF i j] ..
  qed
  finally show ?thesis .
qed

lemma fold_without_overlap:
  assumes H: "0 < dim_h maps" and W: "0 < dim_w maps" and n: "0 < n" and m: "0 < m"
    and C: "0 < dim_c maps" and N: "dim_n maps = n * m"
  shows "\<exists>t. fold maps (int n * int (dim_h maps), int m * int (dim_w maps))
                (int (dim_h maps), int (dim_w maps)) (int (dim_h maps), int (dim_w maps)) = Inr t \<and>
             dim_n t = 1 \<and> dim_c t = dim_c maps \<and>
             dim_h t = n * dim_h maps \<and> dim_w t = m * dim_w maps \<and>
             (\<forall>c y x. y < n * dim_h maps \<longrightarrow> x < m * dim_w maps \<longrightarrow>
                entry t 0 c y x =
                  entry maps ((y div dim_h maps) * m + x div dim_w maps) c
                    (y mod dim_h maps) (x mod dim_w maps))"
proof -
  let ?H = "dim_h maps" and ?W = "dim_w maps"
  let ?os = "(int n * int ?H, int m * int ?W)" and ?ks = "(int ?H, int ?W)"
  have rows: "dim_c maps * ?H * ?W \<noteq> 0" using H W C by simp
  have dv: "int (dim_c maps * ?H * ?W) mod (int ?H * int ?W) = 0"
    by (simp add: mult.assoc)
  have q: "dim_c maps * ?H * ?W div nat (int ?H * int ?W) = dim_c maps"
    using H W by (simp add: nat_mult_distrib mult.assoc)
  have NN: "int (dim_n maps) = int n * int m" using N by simp
  have f: "fold maps ?os ?ks ?ks =
     Inr \<lparr> dim_n = 1, dim_c = dim_c maps, dim_h = n * ?H, dim_w = m * ?W,
           entry = (\<lambda>k. fold_entry maps ?os ?ks ?ks) \<rparr>"
    using H W n m rows dv NN N
    by (simp add: fold_def Let_def fold_blocks_tiling q nat_mult_distrib)
  show ?thesis
    unfolding f using fold_entry_tiling [OF H W n m] by simp
qed

text \<open>
  C2. An image of four rows and columns cut into four patches of two rows and columns
  without overlap, the model returning each patch as it is. Reductions \<open>sum\<close> and \<open>mean\<close>
  give the tiling of the patches, which is the image. Reduction \<open>max\<close> lists one box
  fewer per axis than there are patches, places the first patch only and leaves the rest
  of the map at 0.
\<close>

theorem dense_overlap_zero_modes_differ:
  "\<not> isl (stitch_call spec_extract interp
       \<lparr> model = identity_model, size_hw = (2, 2), overlap = 0, batch_size = 1, down_ratio = 1,
         up = False, reduction = ''sum'', device = ''cpu'' \<rparr> ramp) \<and>
   plane (projr (stitch_call spec_extract interp
       \<lparr> model = identity_model, size_hw = (2, 2), overlap = 0, batch_size = 1, down_ratio = 1,
         up = False, reduction = ''sum'', device = ''cpu'' \<rparr> ramp)) 0 0
     = [[1, 2, 3, 4], [5, 6, 7, 8], [9, 10, 11, 12], [13, 14, 15, 16]] \<and>
   plane (projr (stitch_call spec_extract interp
       \<lparr> model = identity_model, size_hw = (2, 2), overlap = 0, batch_size = 1, down_ratio = 1,
         up = False, reduction = ''mean'', device = ''cpu'' \<rparr> ramp)) 0 0
     = [[1, 2, 3, 4], [5, 6, 7, 8], [9, 10, 11, 12], [13, 14, 15, 16]] \<and>
   \<not> isl (stitch_call spec_extract interp
       \<lparr> model = identity_model, size_hw = (2, 2), overlap = 0, batch_size = 1, down_ratio = 1,
         up = False, reduction = ''max'', device = ''cpu'' \<rparr> ramp) \<and>
   plane (projr (stitch_call spec_extract interp
       \<lparr> model = identity_model, size_hw = (2, 2), overlap = 0, batch_size = 1, down_ratio = 1,
         up = False, reduction = ''max'', device = ''cpu'' \<rparr> ramp)) 0 0
     = [[1, 2, 0, 0], [5, 6, 0, 0], [0, 0, 0, 0], [0, 0, 0, 0]]"
  by (simp add: call_eval identity_model_def ramp_def plane_def)

section \<open>Batches in detection mode\<close>

text \<open>
  Both loops keep the order of the batches. The dense loop adds the output of each batch
  as it is; the detection loop goes through only if every batch yields exactly one
  detection set, and stops with TypeError at the first batch that yields none or several.
\<close>

lemma inference_loop_outputs:
  "(\<And>b. b \<in> set bs \<Longrightarrow> mdl b = Inr (f b)) \<Longrightarrow> inference_loop mdl acc bs = Inr (acc @ map f bs)"
  by (induction bs arbitrary: acc) simp_all

lemma frcnn_inference_loop_singletons:
  "(\<And>b. b \<in> set bs \<Longrightarrow> mdl b = Inr [f b]) \<Longrightarrow>
     frcnn_inference_loop mdl acc bs = Inr (acc @ map f bs)"
  by (induction bs arbitrary: acc) simp_all

lemma frcnn_inference_loop_batch:
  assumes "mdl b = Inr outs" and "length outs \<noteq> 1"
  shows "frcnn_inference_loop mdl acc (b # rest) = Inl TypeError"
proof (cases outs)
  case Nil
  with assms(1) show ?thesis by simp
next
  case (Cons a as)
  with assms(2) obtain a' as' where "as = a' # as'" by (cases as) auto
  with Cons assms(1) show ?thesis by simp
qed

text \<open>
  C5. Two patches and a detector that returns one detection set per patch. With a batch
  size of 1 the inference returns the two sets in order; with a batch size of 2 the one
  batch yields two sets, \<open>append\<close> receives two arguments and the inference ends with
  TypeError.
\<close>

theorem frcnn_inference_batch_type_error:
  "frcnn_inference
     \<lparr> model = no_detections, size_hw = (256, 256), overlap = 64, batch_size = 2, down_ratio = 1,
       up = False, reduction = ''sum'', device = ''cpu'',
       nms_threshold = 1/2, score_threshold = 0 \<rparr>
     (full4 2 3 256 256 0) = Inl TypeError \<and>
   frcnn_inference
     \<lparr> model = no_detections, size_hw = (256, 256), overlap = 64, batch_size = 1, down_ratio = 1,
       up = False, reduction = ''sum'', device = ''cpu'',
       nms_threshold = 1/2, score_threshold = 0 \<rparr>
     (full4 2 3 256 256 0)
     = Inr [\<lparr> boxes = [], labels = [], scores = [] \<rparr>, \<lparr> boxes = [], labels = [], scores = [] \<rparr>]"
  by (simp add: frcnn_inference_def dataloader_def sub_batch_def full4_def no_detections_def
      upt_conv_Cons)

section \<open>Maximum reduction\<close>

lemma set_patch_entry:
  assumes "set_patch (full4 N C H W 0) l m = Inr p"
  shows "entry p n c y x = patch_val H W l m c y x"
  using assms
  by (cases l) (auto simp: set_patch_def patch_val_def full4_def Let_def split: if_splits)

lemma Max_insert_max:
  fixes a b :: real
  assumes "finite S"
  shows "Max (insert (max a b) S) = Max (insert a (insert b S))"
proof (cases "S = {}")
  case True
  then show ?thesis by (simp add: max.commute)
next
  case False
  with assms show ?thesis by (simp add: max.assoc)
qed

lemma max_fold_loop_entry:
  assumes "max_fold_loop out lms = Inr r"
  shows "dim_n r = dim_n out \<and> dim_c r = dim_c out \<and> dim_h r = dim_h out \<and> dim_w r = dim_w out \<and>
         entry r n c y x =
           Max (insert (entry out n c y x)
                  ((\<lambda>(l, m). patch_val (dim_h out) (dim_w out) l m c y x) ` set lms))"
  using assms
proof (induction out lms rule: max_fold_loop.induct)
  case (1 acc)
  then show ?case by simp
next
  case (2 acc l m rest)
  let ?z = "full4 (dim_n acc) (dim_c acc) (dim_h acc) (dim_w acc) 0"
  from "2.prems" obtain p where p: "set_patch ?z l m = Inr p"
    and loop: "max_fold_loop (tmax acc p) rest = Inr r"
    by (cases "set_patch ?z l m") simp_all
  have pe: "entry p n c y x = patch_val (dim_h acc) (dim_w acc) l m c y x"
    using p by (rule set_patch_entry)
  have dims: "dim_n (tmax acc p) = dim_n acc" "dim_c (tmax acc p) = dim_c acc"
    "dim_h (tmax acc p) = dim_h acc" "dim_w (tmax acc p) = dim_w acc"
    by (simp_all add: tmax_def)
  have te: "entry (tmax acc p) n c y x
            = max (entry acc n c y x) (patch_val (dim_h acc) (dim_w acc) l m c y x)"
    by (simp add: tmax_def pe)
  note IH = "2.IH" [OF loop]
  let ?S = "(\<lambda>(l, m). patch_val (dim_h acc) (dim_w acc) l m c y x) ` set rest"
  have fin: "finite ?S" by simp
  from IH have "entry r n c y x =
      Max (insert (max (entry acc n c y x) (patch_val (dim_h acc) (dim_w acc) l m c y x)) ?S)"
    by (simp only: dims te)
  also have "\<dots> = Max (insert (entry acc n c y x)
                       (insert (patch_val (dim_h acc) (dim_w acc) l m c y x) ?S))"
    using fin by (rule Max_insert_max)
  finally have "entry r n c y x =
      Max (insert (entry acc n c y x)
             ((\<lambda>(l, m). patch_val (dim_h acc) (dim_w acc) l m c y x) ` set ((l, m) # rest)))"
    by simp
  with IH dims show ?case by simp
qed

lemma div_neg_step: "0 \<le> (stop::int) \<Longrightarrow> step < 0 \<Longrightarrow> (stop + step + 1) div step \<le> 0"
proof -
  assume a: "0 \<le> stop" and b: "step < 0"
  show ?thesis
  proof (cases "0 < stop + step + 1")
    case True
    then have "0 \<le> stop + step + 1" by simp
    then show ?thesis using b by (rule div_nonneg_neg_le0)
  next
    case False
    with a b have "(stop + step + 1) div step = 0"
      by (intro div_neg_neg_trivial) simp_all
    then show ?thesis by simp
  qed
qed

lemma range0_nonneg:
  assumes "range0 stop step = Inr starts" and "0 \<le> stop"
  shows "\<forall>i \<in> set starts. 0 \<le> i"
proof (cases "0 < step")
  case True
  with assms show ?thesis by (auto simp: range0_def split: if_splits)
next
  case False
  with assms have s: "step < 0" by (auto simp: range0_def split: if_splits)
  with assms(2) have "(stop + step + 1) div step \<le> 0" by (intro div_neg_step)
  with assms s show ?thesis by (auto simp: range0_def split: if_splits)
qed

lemma fn_boxes:
  assumes "fn out k s = Inr hs" and "0 \<le> out"
  shows "\<forall>(a, b) \<in> set hs. 0 \<le> a \<and> b = a + k"
proof -
  from assms(1) obtain starts where r: "range0 out s = Inr starts"
    and hs: "hs = butlast (map (\<lambda>i. (i, i + k)) starts)"
    by (cases "range0 out s") (auto simp: fn_def)
  from r assms(2) have nn: "\<forall>i \<in> set starts. 0 \<le> i" by (rule range0_nonneg)
  show ?thesis
  proof (clarify)
    fix a b assume "(a, b) \<in> set hs"
    then have "(a, b) \<in> set (map (\<lambda>i. (i, i + k)) starts)"
      unfolding hs by (rule in_set_butlastD)
    with nn show "0 \<le> a \<and> b = a + k" by auto
  qed
qed

lemma max_fold_locs_boxes:
  assumes "max_fold_locs os ks sd = Inr locs" and "0 \<le> fst os" and "0 \<le> snd os"
  shows "\<forall>(h0, h1, w0, w1) \<in> set locs.
           0 \<le> h0 \<and> h1 = h0 + fst ks \<and> 0 \<le> w0 \<and> w1 = w0 + snd ks"
proof -
  from assms(1) obtain hs where hs: "fn (fst os) (fst ks) (fst sd) = Inr hs"
    by (cases "fn (fst os) (fst ks) (fst sd)") (auto simp: max_fold_locs_def)
  note hb = fn_boxes [OF hs assms(2)]
  show ?thesis
  proof (cases "hs = []")
    case True
    with assms(1) hs show ?thesis by (simp add: max_fold_locs_def)
  next
    case False
    with assms(1) hs obtain ws where ws: "fn (snd os) (snd ks) (snd sd) = Inr ws"
      and locs: "locs = concat (map (\<lambda>(h0, h1). map (\<lambda>(w0, w1). (h0, h1, w0, w1)) ws) hs)"
      by (cases "fn (snd os) (snd ks) (snd sd)") (auto simp: max_fold_locs_def)
    note wb = fn_boxes [OF ws assms(3)]
    from hb wb show ?thesis unfolding locs by fastforce
  qed
qed

lemma covered_iff:
  assumes "y < H" and "0 \<le> a" and "0 \<le> b"
  shows "(norm_index H a \<le> y \<and> y < norm_index H b) \<longleftrightarrow> (a \<le> int y \<and> int y < b)"
  using assms by (auto simp: norm_index_def)

lemma covered_offset:
  assumes "0 \<le> a" and "a \<le> int y" and "y < H"
  shows "y - norm_index H a = y - nat a"
  using assms by (auto simp: norm_index_def)

lemma patch_val_item:
  assumes l: "0 \<le> h0" "h1 = h0 + int (dim_h maps)" "0 \<le> w0" "w1 = w0 + int (dim_w maps)"
    and c: "c < dim_c maps" and y: "y < H" and x: "x < W"
  shows "patch_val H W (h0, h1, w0, w1)
           \<lparr> img_c = dim_c maps, img_h = dim_h maps, img_w = dim_w maps, img_px = entry maps i \<rparr> c y x
         = (if h0 \<le> int y \<and> int y < h1 \<and> w0 \<le> int x \<and> int x < w1
            then entry maps i c (y - nat h0) (x - nat w0) else 0)"
proof -
  have h1: "0 \<le> h1" and w1: "0 \<le> w1" using l by simp_all
  define P where "P \<longleftrightarrow> h0 \<le> int y \<and> int y < h1 \<and> w0 \<le> int x \<and> int x < w1"
  have cov: "(norm_index H h0 \<le> y \<and> y < norm_index H h1 \<and> norm_index W w0 \<le> x \<and> x < norm_index W w1)
     \<longleftrightarrow> P"
    unfolding P_def using covered_iff [OF y l(1) h1] covered_iff [OF x l(3) w1] by blast
  let ?m = "\<lparr> img_c = dim_c maps, img_h = dim_h maps, img_w = dim_w maps, img_px = entry maps i \<rparr>"
  have pv: "patch_val H W (h0, h1, w0, w1) ?m c y x
     = (if P
        then img_px ?m (bidx (img_c ?m) c) (bidx (img_h ?m) (y - norm_index H h0))
               (bidx (img_w ?m) (x - norm_index W w0))
        else 0)"
    by (simp only: patch_val_def prod.case cov)
  have "patch_val H W (h0, h1, w0, w1) ?m c y x
         = (if P then entry maps i c (y - nat h0) (x - nat w0) else 0)"
  proof (cases P)
    case False
    then show ?thesis by (simp add: pv)
  next
    case True
    then have T: "h0 \<le> int y" "int y < h1" "w0 \<le> int x" "int x < w1"
      by (simp_all add: P_def)
    have bc: "bidx (dim_c maps) c = c" using c by (simp add: bidx_def)
    have oy: "y - norm_index H h0 = y - nat h0"
      using l(1) T(1) y by (rule covered_offset)
    have ox: "x - norm_index W w0 = x - nat w0"
      using l(3) T(3) x by (rule covered_offset)
    have by': "bidx (dim_h maps) (y - nat h0) = y - nat h0"
      using T l by (auto simp: bidx_def)
    have bx: "bidx (dim_w maps) (x - nat w0) = x - nat w0"
      using T l by (auto simp: bidx_def)
    from True show ?thesis
      by (simp add: pv bc oy ox by' bx)
  qed
  then show ?thesis unfolding P_def .
qed

lemma unbind_nth:
  "i < dim_n maps \<Longrightarrow> unbind maps ! i =
     \<lparr> img_c = dim_c maps, img_h = dim_h maps, img_w = dim_w maps, img_px = entry maps i \<rparr>"
  by (simp add: unbind_def)

lemma length_unbind: "length (unbind maps) = dim_n maps"
  by (simp add: unbind_def)

text \<open>
  Each pixel in terms of the list of boxes that \<open>_max_fold\<close> computes: the maximum of 0
  and of the values of the patches paired with a box that covers the pixel.
\<close>

lemma max_fold_pixel_by_locs:
  assumes ok: "max_fold maps os ks sd = Inr r"
    and kh: "fst ks = int (dim_h maps)" and kw: "snd ks = int (dim_w maps)"
    and c: "c < dim_c maps" and y: "int y < fst os" and x: "int x < snd os"
  shows "\<exists>locs. max_fold_locs os ks sd = Inr locs \<and>
           entry r 0 c y x =
             Max (insert 0 {entry maps i c (y - nat h0) (x - nat w0) | i h0 h1 w0 w1.
                    i < dim_n maps \<and> i < length locs \<and> locs ! i = (h0, h1, w0, w1) \<and>
                    h0 \<le> int y \<and> int y < h1 \<and> w0 \<le> int x \<and> int x < w1})"
proof -
  let ?H = "nat (fst os)" and ?W = "nat (snd os)"
  from ok have nn: "0 \<le> fst os" "0 \<le> snd os"
    by (auto simp: max_fold_def split: if_splits)
  with ok obtain locs where locs: "max_fold_locs os ks sd = Inr locs"
    and loop: "max_fold_loop (full4 1 (dim_c maps) ?H ?W 0) (zip locs (unbind maps)) = Inr r"
    by (cases "max_fold_locs os ks sd") (auto simp: max_fold_def)
  have yH: "y < ?H" and xW: "x < ?W" using y x by simp_all
  note lb = max_fold_locs_boxes [OF locs nn]
  let ?pv = "\<lambda>(l, m). patch_val ?H ?W l m c y x"
  let ?A = "?pv ` set (zip locs (unbind maps))"
  let ?B = "{entry maps i c (y - nat h0) (x - nat w0) | i h0 h1 w0 w1.
                    i < dim_n maps \<and> i < length locs \<and> locs ! i = (h0, h1, w0, w1) \<and>
                    h0 \<le> int y \<and> int y < h1 \<and> w0 \<le> int x \<and> int x < w1}"
  have item: "?pv (locs ! i, unbind maps ! i) =
               (if h0 \<le> int y \<and> int y < h1 \<and> w0 \<le> int x \<and> int x < w1
                then entry maps i c (y - nat h0) (x - nat w0) else 0)"
    if i: "i < length locs" "i < dim_n maps" and l: "locs ! i = (h0, h1, w0, w1)"
    for i h0 h1 w0 w1
  proof -
    from i(1) have "locs ! i \<in> set locs" by simp
    with lb l have s: "0 \<le> h0" "h1 = h0 + int (dim_h maps)" "0 \<le> w0" "w1 = w0 + int (dim_w maps)"
      by (auto simp: kh kw)
    show ?thesis
      unfolding l unbind_nth [OF i(2)] prod.case
      using s c yH xW by (rule patch_val_item)
  qed
  have "insert 0 ?A = insert 0 ?B"
  proof (intro equalityI subsetI)
    fix v assume "v \<in> insert 0 ?A"
    then consider "v = 0" | "v \<in> ?A" by blast
    then show "v \<in> insert 0 ?B"
    proof cases
      case 1
      then show ?thesis by simp
    next
      case 2
      then obtain l m where lm: "(l, m) \<in> set (zip locs (unbind maps))" and v: "v = ?pv (l, m)"
        by auto
      from lm obtain i where i: "i < length locs" "i < dim_n maps"
        and l: "l = locs ! i" and m: "m = unbind maps ! i"
        by (auto simp: set_zip length_unbind)
      obtain h0 h1 w0 w1 where q: "locs ! i = (h0, h1, w0, w1)"
        by (cases "locs ! i") auto
      note it = item [OF i q]
      show ?thesis
      proof (cases "h0 \<le> int y \<and> int y < h1 \<and> w0 \<le> int x \<and> int x < w1")
        case True
        with it have "v = entry maps i c (y - nat h0) (x - nat w0)"
          unfolding v l m by simp
        with i q True have "v \<in> ?B" by blast
        then show ?thesis by simp
      next
        case False
        with it have "v = 0" unfolding v l m by simp
        then show ?thesis by simp
      qed
    qed
  next
    fix v assume "v \<in> insert 0 ?B"
    then consider "v = 0" | "v \<in> ?B" by blast
    then show "v \<in> insert 0 ?A"
    proof cases
      case 1
      then show ?thesis by simp
    next
      case 2
      then obtain i h0 h1 w0 w1 where i: "i < length locs" "i < dim_n maps"
        and q: "locs ! i = (h0, h1, w0, w1)"
        and cov: "h0 \<le> int y \<and> int y < h1 \<and> w0 \<le> int x \<and> int x < w1"
        and v: "v = entry maps i c (y - nat h0) (x - nat w0)"
        by blast
      from item [OF i q] cov have "?pv (locs ! i, unbind maps ! i) = v"
        unfolding v by simp
      moreover from i have "(locs ! i, unbind maps ! i) \<in> set (zip locs (unbind maps))"
        by (auto simp: set_zip length_unbind)
      ultimately have "v \<in> ?A" by (metis (no_types, lifting) image_eqI)
      then show ?thesis by simp
    qed
  qed
  moreover from max_fold_loop_entry [OF loop, of 0 c y x]
  have "entry r 0 c y x = Max (insert 0 ?A)"
    by (simp add: full4_def)
  ultimately have "entry r 0 c y x = Max (insert 0 ?B)" by simp
  with locs show ?thesis by blast
qed

text \<open>
  With an overlap between 1 and the stride on both axes the list of boxes is the tiling
  grid, row by row, and every patch fits the slice it is written to.
\<close>

lemma concat_map_product:
  "concat (map (\<lambda>a. map (f a) ys) xs) = map (\<lambda>(a, b). f a b) (List.product xs ys)"
  by (induction xs) simp_all

lemma concat_map_nth:
  assumes "i < length xs * length ys"
  shows "concat (map (\<lambda>a. map (f a) ys) xs) ! i = f (xs ! (i div length ys)) (ys ! (i mod length ys))"
  using assms by (simp add: concat_map_product product_nth)

lemma if_nil_concat:
  "(if xs = [] then Inr [] else Inr (concat (map g xs))) = Inr (concat (map g xs))"
  by simp

lemma case_prod_boxes:
  "(\<lambda>(h0, h1). map (\<lambda>(w0, w1). (h0, h1, w0, w1)) ws) = (\<lambda>a. map (\<lambda>b. (fst a, snd a, fst b, snd b)) ws)"
  by (auto simp: fun_eq_iff)

lemma max_fold_locs_with_overlap:
  fixes n m sh sw ov :: nat
  assumes ov: "0 < ov" "ov \<le> sh" "ov \<le> sw"
  shows "\<exists>locs. max_fold_locs (int (n * sh + ov), int (m * sw + ov)) (int (sh + ov), int (sw + ov))
                  (int sh, int sw) = Inr locs \<and>
           length locs = n * m \<and>
           (\<forall>i < n * m. locs ! i =
              (int ((i div m) * sh), int ((i div m) * sh + (sh + ov)),
               int ((i mod m) * sw), int ((i mod m) * sw + (sw + ov))))"
proof -
  let ?hs = "map (\<lambda>i. (int i * int sh, int i * int sh + int (sh + ov))) [0..<n]"
  let ?ws = "map (\<lambda>i. (int i * int sw, int i * int sw + int (sw + ov))) [0..<m]"
  let ?f = "\<lambda>a b. (fst a, snd a, fst b, snd b)"
  let ?locs = "concat (map (\<lambda>a. map (?f a) ?ws) ?hs)"
  have h: "fn (int (n * sh + ov)) (int (sh + ov)) (int sh) = Inr ?hs"
    using fn_with_overlap [of "int sh" "int ov" n "int (sh + ov)"] ov by simp
  have w: "fn (int (m * sw + ov)) (int (sw + ov)) (int sw) = Inr ?ws"
    using fn_with_overlap [of "int sw" "int ov" m "int (sw + ov)"] ov by simp
  have l: "max_fold_locs (int (n * sh + ov), int (m * sw + ov)) (int (sh + ov), int (sw + ov))
             (int sh, int sw) = Inr ?locs"
    by (simp only: max_fold_locs_def fst_conv snd_conv h w then_do_Inr case_prod_boxes if_nil_concat)
  have "length ?locs = length ?hs * length ?ws"
    by (simp only: concat_map_product length_map length_product)
  then have len: "length ?locs = n * m" by simp
  have nth: "?locs ! i =
              (int ((i div m) * sh), int ((i div m) * sh + (sh + ov)),
               int ((i mod m) * sw), int ((i mod m) * sw + (sw + ov)))" if i: "i < n * m" for i
  proof -
    have m: "0 < m" using i by (cases m) simp_all
    have r: "i div m < n" using i m by (simp add: less_mult_imp_div_less)
    have q: "i mod m < m" using m by simp
    have "?locs ! i = ?f (?hs ! (i div length ?ws)) (?ws ! (i mod length ?ws))"
      by (rule concat_map_nth) (use i in simp)
    with r q show ?thesis by simp
  qed
  from l len nth show ?thesis by blast
qed

lemma max_fold_loop_ok:
  assumes "\<forall>(l, m) \<in> set lms.
             \<exists>p. set_patch (full4 (dim_n out) (dim_c out) (dim_h out) (dim_w out) 0) l m = Inr p"
  shows "\<exists>r. max_fold_loop out lms = Inr r"
  using assms
proof (induction lms arbitrary: out)
  case Nil
  show ?case by simp
next
  case (Cons lm lms)
  obtain l m where lm: "lm = (l, m)" by (cases lm)
  from Cons.prems lm obtain p
    where p: "set_patch (full4 (dim_n out) (dim_c out) (dim_h out) (dim_w out) 0) l m = Inr p"
    by auto
  have dims: "dim_n (tmax out p) = dim_n out" "dim_c (tmax out p) = dim_c out"
    "dim_h (tmax out p) = dim_h out" "dim_w (tmax out p) = dim_w out"
    by (simp_all add: tmax_def)
  have "\<forall>(l, m) \<in> set lms.
          \<exists>q. set_patch (full4 (dim_n (tmax out p)) (dim_c (tmax out p)) (dim_h (tmax out p))
                 (dim_w (tmax out p)) 0) l m = Inr q"
    unfolding dims using Cons.prems by simp
  then have "\<exists>r. max_fold_loop (tmax out p) lms = Inr r" by (rule Cons.IH)
  with p lm show ?case by simp
qed

lemma norm_index_fit: "k \<le> H \<Longrightarrow> norm_index H (int k) = k"
  by (simp add: norm_index_def)

lemma set_patch_fits:
  assumes "h0 + img_h m \<le> H" and "w0 + img_w m \<le> W" and "img_c m = C"
  shows "\<exists>p. set_patch (full4 N C H W 0)
               (int h0, int (h0 + img_h m), int w0, int (w0 + img_w m)) m = Inr p"
proof -
  have "h0 \<le> H" and "w0 \<le> W" using assms(1,2) by simp_all
  then have b: "norm_index H (int h0) = h0" "norm_index H (int (h0 + img_h m)) = h0 + img_h m"
    "norm_index W (int w0) = w0" "norm_index W (int (w0 + img_w m)) = w0 + img_w m"
    using assms(1,2) by (simp_all only: norm_index_fit)
  have d: "dim_h (full4 N C H W 0) = H" "dim_w (full4 N C H W 0) = W"
    "dim_c (full4 N C H W 0) = C"
    by (simp_all add: full4_def)
  show ?thesis
    unfolding set_patch_def prod.case Let_def d b
    by (simp add: assms(3))
qed

lemma tile_row_fits:
  fixes n m sh i :: nat
  assumes "i < n * m"
  shows "(i div m) * sh + (sh + ov) \<le> n * sh + ov"
proof -
  have m: "0 < m" using assms by (cases m) simp_all
  have "i div m < n" using assms m by (simp add: less_mult_imp_div_less)
  then have "Suc (i div m) \<le> n" by simp
  then have "Suc (i div m) * sh \<le> n * sh" by (rule mult_le_mono1)
  then show ?thesis by simp
qed

lemma tile_col_fits:
  fixes m sw i :: nat
  assumes "0 < m"
  shows "(i mod m) * sw + (sw + ov) \<le> m * sw + ov"
proof -
  have "i mod m < m" using assms by simp
  then have "Suc (i mod m) \<le> m" by simp
  then have "Suc (i mod m) * sw \<le> m * sw" by (rule mult_le_mono1)
  then show ?thesis by simp
qed

lemma max_fold_with_overlap_returns:
  fixes n m sh sw ov :: nat
  assumes ov: "0 < ov" "ov \<le> sh" "ov \<le> sw"
    and shape: "dim_h maps = sh + ov" "dim_w maps = sw + ov"
  shows "\<exists>r. max_fold maps (int (n * sh + ov), int (m * sw + ov)) (int (sh + ov), int (sw + ov))
               (int sh, int sw) = Inr r"
proof -
  let ?os = "(int (n * sh + ov), int (m * sw + ov))"
  let ?ks = "(int (sh + ov), int (sw + ov))"
  let ?sd = "(int sh, int sw)"
  obtain locs where locs: "max_fold_locs ?os ?ks ?sd = Inr locs"
    and len: "length locs = n * m"
    and nth: "\<forall>i < n * m. locs ! i =
              (int ((i div m) * sh), int ((i div m) * sh + (sh + ov)),
               int ((i mod m) * sw), int ((i mod m) * sw + (sw + ov)))"
    using max_fold_locs_with_overlap [OF ov, of n m] by blast
  let ?out = "full4 1 (dim_c maps) (n * sh + ov) (m * sw + ov) 0"
  have "\<forall>(l, t) \<in> set (zip locs (unbind maps)).
          \<exists>p. set_patch (full4 (dim_n ?out) (dim_c ?out) (dim_h ?out) (dim_w ?out) 0) l t = Inr p"
  proof (clarify)
    fix l0 l1 l2 l3 t
    assume "((l0, l1, l2, l3), t) \<in> set (zip locs (unbind maps))"
    then obtain i where i: "i < n * m" "i < dim_n maps"
      and l: "(l0, l1, l2, l3) = locs ! i" and t: "t = unbind maps ! i"
      by (auto simp: set_zip len length_unbind)
    have m: "0 < m" using i(1) by (cases m) simp_all
    have tt: "img_c t = dim_c maps" "img_h t = sh + ov" "img_w t = sw + ov"
      unfolding t unbind_nth [OF i(2)] by (simp_all add: shape)
    have "\<exists>p. set_patch (full4 1 (dim_c maps) (n * sh + ov) (m * sw + ov) 0)
               (int ((i div m) * sh), int ((i div m) * sh + img_h t),
                int ((i mod m) * sw), int ((i mod m) * sw + img_w t)) t = Inr p"
      by (rule set_patch_fits) (simp_all add: tt tile_row_fits [OF i(1)] tile_col_fits [OF m])
    then show "\<exists>p. set_patch (full4 (dim_n ?out) (dim_c ?out) (dim_h ?out) (dim_w ?out) 0)
                 (l0, l1, l2, l3) t = Inr p"
      unfolding l using nth i(1) by (simp add: tt full4_def)
  qed
  then have "\<exists>r. max_fold_loop ?out (zip locs (unbind maps)) = Inr r"
    by (rule max_fold_loop_ok)
  moreover have nn: "(int (n * sh + ov) < 0 \<or> int (m * sw + ov) < 0) = False"
    by (simp only: de_Morgan_disj not_less of_nat_0_le_iff simp_thms)
  have "max_fold maps ?os ?ks ?sd = max_fold_loop ?out (zip locs (unbind maps))"
    by (simp only: max_fold_def nn if_False locs then_do_Inr fst_conv snd_conv nat_int)
  ultimately show ?thesis by simp
qed

text \<open>
  With \<open>down_ratio = 1\<close> these are the arguments that \<open>_patch_maps\<close> passes: \<open>n\<close> is
  \<open>_ncol\<close>, \<open>m\<close> is \<open>_nrow\<close>, the kernel is the patch size and the stride is the
  patch size minus the overlap.
\<close>

lemma patch_maps_max_geometry:
  fixes n m sh sw ov :: nat
  assumes "reduction st = ''max''" and "down_ratio st = 1"
    and "size_hw st = (int (sh + ov), int (sw + ov))" and "overlap st = int ov"
    and "ncol st = int n" and "nrow st = int m"
  shows "patch_maps st maps =
           then_do (cat maps) (\<lambda>ms.
           then_do (max_fold ms (int (n * sh + ov), int (m * sw + ov))
                      (int (sh + ov), int (sw + ov)) (int sh, int sw)) (\<lambda>out_map.
             Inr (crop out_map (int (img_h (img st))) (int (img_w (img st))))))"
proof -
  have a: "int n * int (sh + ov) - (int n - 1) * int ov = int (n * sh + ov)"
    by (simp add: algebra_simps)
  have b: "int m * int (sw + ov) - (int m - 1) * int ov = int (m * sw + ov)"
    by (simp add: algebra_simps)
  have c: "int (sh + ov) - int ov = int sh" "int (sw + ov) - int ov = int sw"
    by simp_all
  show ?thesis
    unfolding patch_maps_def Let_def assms fst_conv snd_conv div_by_1 a b c
    by simp
qed


lemmas max_eval = max_fold_def max_fold_locs_def fn_def range0_def unbind_def set_patch_def
  tmax_def full4_def norm_index_def bidx_def two_patches_def upt_conv_Cons Let_def



end
